theory Spec2Isabelle
  imports Main "HOL-Library.Word"
begin

section \<open>Share proofs of celestia-core: \<^verbatim>\<open>types/share_proof.go\<close>\<close>

text \<open>
  A shallow embedding of \<^verbatim>\<open>ShareProof.Validate\<close>, \<^verbatim>\<open>ShareProof.VerifyProof\<close>,
  \<^verbatim>\<open>ShareProof.ToProto\<close> and \<^verbatim>\<open>ShareProofFromProto\<close>.

  Conventions of the embedding:
  \<^item> Go's \<^verbatim>\<open>int32\<close>, \<^verbatim>\<open>uint32\<close> and \<^verbatim>\<open>int64\<close> are machine words: \<open>+\<close> and \<open>-\<close> wrap around,
    \<open>sint\<close> reads the two's complement value, and the conversion \<^verbatim>\<open>int32(len(s))\<close> is
    \<open>of_nat\<close> of the length, which keeps the low 32 bits;
  \<^item> \<^verbatim>\<open>Data\<close>, the one slice that the code reslices (\<^verbatim>\<open>sp.Data[cursor:sharesUsed+cursor]\<close>),
    carries its capacity: it is the list of its \<^verbatim>\<open>len\<close> elements together with the list of the
    elements of its backing array between \<^verbatim>\<open>len\<close> and \<^verbatim>\<open>cap\<close>. Every other slice is only measured,
    ranged over and indexed, where the capacity plays no part, and is the list of its
    elements; a \<^verbatim>\<open>nil\<close> slice is the empty list. A slice handed to a collaborator is handed as
    the list of its elements;
  \<^item> a run-time panic of Go (slice bounds, index out of range, nil dereference) is a value
    \<open>Inl p\<close> of the result, a normal return is \<open>Inr r\<close>;
  \<^item> a pointer that the code dereferences is an option, \<open>None\<close> for \<^verbatim>\<open>nil\<close>: the entries of
    \<^verbatim>\<open>[]*tmproto.NMTProof\<close>, the \<^verbatim>\<open>RowProof\<close> of a wire message, and the entries of its
    \<^verbatim>\<open>Proofs\<close>. The entries of \<^verbatim>\<open>[]*merkle.Proof\<close>, which the code builds itself or hands to
    a method, are the structs they point to;
  \<^item> an \<^verbatim>\<open>error\<close> is the value that \<^verbatim>\<open>errors.New\<close> makes of its message; the code declares no
    error type of its own;
  \<^item> the two collaborators that are not part of this file of the repository, the
    namespaced-Merkle-tree inclusion verifier (\<^verbatim>\<open>nmt.Proof.VerifyInclusion\<close> with the protocol's
    base hash function) and \<^verbatim>\<open>RowProof.Validate\<close>, are parameters of the functions that call
    them, and every call made to them is recorded in a list of events, in the order of the
    calls.
\<close>

subsection \<open>Data\<close>

type_synonym bytes = "8 word list"
type_synonym int32 = "32 word"
type_synonym uint32 = "32 word"
type_synonym int64 = "64 word"

text \<open>
  A slice with its capacity: \<open>elems\<close> are the elements \<open>s[0], ..., s[len(s)-1]\<close>, \<open>spare\<close> are
  the elements of the backing array that a slice expression can still reach,
  \<open>s[:cap(s)][len(s)], ..., s[:cap(s)][cap(s)-1]\<close>.
\<close>

record 'a slice =
  elems :: "'a list"
  spare :: "'a list"

definition len :: "'a slice \<Rightarrow> nat" where
  "len s = length (elems s)"

definition cap :: "'a slice \<Rightarrow> nat" where
  "cap s = length (elems s) + length (spare s)"

text \<open>\<^verbatim>\<open>tmproto.NMTProof\<close>: the fields the code reads.\<close>

record NMTProof =
  Start :: int32
  End :: int32
  Nodes :: "bytes list"

text \<open>\<^verbatim>\<open>merkle.Proof\<close>, with the four fields that \<^verbatim>\<open>ShareProofFromProto\<close> sets.\<close>

record Proof =
  Total :: int64
  Index :: int64
  LeafHash :: bytes
  Aunts :: "bytes list"

record RowProof =
  RowRoots :: "bytes list"
  Proofs :: "Proof list"
  StartRow :: uint32
  EndRow :: uint32

record ShareProof =
  Data :: "bytes slice"
  ShareProofs :: "NMTProof option list"
  NamespaceID :: bytes
  RowProof :: RowProof

text \<open>The wire messages \<^verbatim>\<open>crypto.Proof\<close>, \<^verbatim>\<open>tmproto.RowProof\<close> and \<^verbatim>\<open>tmproto.ShareProof\<close>.\<close>

record pb_Proof =
  pb_Total :: int64
  pb_Index :: int64
  pb_LeafHash :: bytes
  pb_Aunts :: "bytes list"

record pb_RowProof =
  pb_RowRoots :: "bytes list"
  pb_Proofs :: "pb_Proof option list"
  pb_StartRow :: uint32
  pb_EndRow :: uint32

record pb_ShareProof =
  pb_Data :: "bytes slice"
  pb_ShareProofs :: "NMTProof option list"
  NamespaceId :: bytes
  pb_RowProof :: "pb_RowProof option"

subsection \<open>Panics, errors, events\<close>

datatype panic = SliceBoundsOutOfRange | IndexOutOfRange | NilDereference

text \<open>
  \<^verbatim>\<open>errors.New(message)\<close>. The four errors that \<^verbatim>\<open>ShareProof.Validate\<close> makes are named after
  the error kinds of the specification; the range check has two messages.
\<close>

datatype error = errors_New string

definition CountMismatch :: error where
  "CountMismatch =
     errors_New ''invalid number of proofs, row roots, or data. they all must be the same to verify the proof''"

definition NegativeIndex :: error where
  "NegativeIndex = errors_New ''proof index cannot be negative''"

definition NonPositiveTotal :: error where
  "NonPositiveTotal = errors_New ''proof total must be positive''"

definition InconsistentProof :: error where
  "InconsistentProof = errors_New ''proof is not internally consistent''"

definition InvalidRange :: "error \<Rightarrow> bool" where
  "InvalidRange e = (e = NegativeIndex \<or> e = NonPositiveTotal)"

text \<open>
  A call of a collaborator. \<open>VerifyInclusion start end nodes nID leaves root\<close> stands for
  \<^verbatim>\<open>nmt.NewInclusionProof(start, end, nodes, true).VerifyInclusion(consts.NewBaseHashFunc(), nID, leaves, root)\<close>.
\<close>

datatype event =
    VerifyInclusion int int "bytes list" bytes "bytes list" bytes
  | RowProof_Validate RowProof bytes

type_synonym verifier = "int \<Rightarrow> int \<Rightarrow> bytes list \<Rightarrow> bytes \<Rightarrow> bytes list \<Rightarrow> bytes \<Rightarrow> bool"
type_synonym row_validator = "RowProof \<Rightarrow> bytes \<Rightarrow> error option"

subsection \<open>Slicing and indexing\<close>

text \<open>
  \<^verbatim>\<open>s[lo:hi]\<close> panics unless \<open>0 \<le> lo \<le> hi \<le> cap(s)\<close>; the new slice has the elements
  \<open>lo, ..., hi-1\<close> of the backing array and the rest of it as its spare capacity.
  \<^verbatim>\<open>s[i]\<close> panics unless \<open>i < len(s)\<close>.
\<close>

definition slice_expr :: "'a slice \<Rightarrow> int \<Rightarrow> int \<Rightarrow> panic + 'a slice" where
  "slice_expr s lo hi =
     (if 0 \<le> lo \<and> lo \<le> hi \<and> hi \<le> int (cap s)
      then Inr \<lparr>elems = take (nat (hi - lo)) (drop (nat lo) (elems s @ spare s)),
                spare = drop (nat hi) (elems s @ spare s)\<rparr>
      else Inl SliceBoundsOutOfRange)"

definition index :: "'a list \<Rightarrow> nat \<Rightarrow> panic + 'a" where
  "index s i = (if i < length s then Inr (s ! i) else Inl IndexOutOfRange)"

subsection \<open>VerifyProof\<close>

text \<open>
  The loop of \<^verbatim>\<open>VerifyProof\<close>, at cursor \<open>cursor\<close> and row \<open>i\<close>, over the rows still to walk.
  A nil row panics where \<^verbatim>\<open>proof.Start\<close> is read. The arguments of the call are evaluated in
  the source's order: the slice of \<^verbatim>\<open>Data\<close> first, then the row root.
\<close>

fun VerifyProof_loop ::
  "verifier \<Rightarrow> ShareProof \<Rightarrow> int32 \<Rightarrow> nat \<Rightarrow> NMTProof option list
     \<Rightarrow> event list \<times> (panic + bool)" where
  "VerifyProof_loop v sp cursor i [] = ([], Inr True)"
| "VerifyProof_loop v sp cursor i (None # ps) = ([], Inl NilDereference)"
| "VerifyProof_loop v sp cursor i (Some p # ps) =
     (let sharesUsed = End p - Start p in
      case slice_expr (Data sp) (sint cursor) (sint (sharesUsed + cursor)) of
        Inl e \<Rightarrow> ([], Inl e)
      | Inr leaves \<Rightarrow>
          (case index (RowRoots (RowProof sp)) i of
             Inl e \<Rightarrow> ([], Inl e)
           | Inr rowRoot \<Rightarrow>
               (let valid = v (sint (Start p)) (sint (End p)) (Nodes p) (NamespaceID sp)
                              (elems leaves) rowRoot;
                    call = VerifyInclusion (sint (Start p)) (sint (End p)) (Nodes p) (NamespaceID sp)
                             (elems leaves) rowRoot
                in if \<not> valid then ([call], Inr False)
                   else (case VerifyProof_loop v sp (cursor + sharesUsed) (Suc i) ps of
                           (calls, r) \<Rightarrow> (call # calls, r)))))"

definition VerifyProof_run :: "verifier \<Rightarrow> ShareProof \<Rightarrow> event list \<times> (panic + bool)" where
  "VerifyProof_run v sp = VerifyProof_loop v sp 0 0 (ShareProofs sp)"

definition VerifyProof :: "verifier \<Rightarrow> ShareProof \<Rightarrow> panic + bool" where
  "VerifyProof v sp = snd (VerifyProof_run v sp)"

definition VerifyProof_calls :: "verifier \<Rightarrow> ShareProof \<Rightarrow> event list" where
  "VerifyProof_calls v sp = fst (VerifyProof_run v sp)"

subsection \<open>Validate\<close>

text \<open>
  The first loop of \<^verbatim>\<open>Validate\<close>: the declared number of shares, summed in \<^verbatim>\<open>int32\<close>. A nil row
  panics where \<^verbatim>\<open>proof.End\<close> is read.
\<close>

fun numberOfSharesInProofs :: "NMTProof option list \<Rightarrow> int32 \<Rightarrow> panic + int32" where
  "numberOfSharesInProofs [] n = Inr n"
| "numberOfSharesInProofs (None # ps) n = Inl NilDereference"
| "numberOfSharesInProofs (Some p # ps) n = numberOfSharesInProofs ps (n + (End p - Start p))"

text \<open>The second loop: the first row with a negative start or a non-positive total ends it.\<close>

fun range_loop :: "NMTProof option list \<Rightarrow> panic + error option" where
  "range_loop [] = Inr None"
| "range_loop (None # ps) = Inl NilDereference"
| "range_loop (Some p # ps) =
     (if sint (Start p) < 0 then Inr (Some NegativeIndex)
      else if sint (End p - Start p) \<le> 0 then Inr (Some NonPositiveTotal)
      else range_loop ps)"

definition Validate_run ::
  "verifier \<Rightarrow> row_validator \<Rightarrow> ShareProof \<Rightarrow> bytes \<Rightarrow> event list \<times> (panic + error option)" where
  "Validate_run v rv sp root =
     (case numberOfSharesInProofs (ShareProofs sp) 0 of
        Inl e \<Rightarrow> ([], Inl e)
      | Inr n \<Rightarrow>
          if length (RowRoots (RowProof sp)) \<noteq> length (ShareProofs sp)
             \<or> (of_nat (len (Data sp)) :: int32) \<noteq> n
          then ([], Inr (Some CountMismatch))
          else
            (case range_loop (ShareProofs sp) of
               Inl e \<Rightarrow> ([], Inl e)
             | Inr (Some e) \<Rightarrow> ([], Inr (Some e))
             | Inr None \<Rightarrow>
                 (case VerifyProof_run v sp of
                    (calls, Inl e) \<Rightarrow> (calls, Inl e)
                  | (calls, Inr valid) \<Rightarrow>
                      if \<not> valid then (calls, Inr (Some InconsistentProof))
                      else
                        (case rv (RowProof sp) root of
                           Some err \<Rightarrow> (calls @ [RowProof_Validate (RowProof sp) root], Inr (Some err))
                         | None \<Rightarrow> (calls @ [RowProof_Validate (RowProof sp) root], Inr None)))))"

definition Validate :: "verifier \<Rightarrow> row_validator \<Rightarrow> ShareProof \<Rightarrow> bytes \<Rightarrow> panic + error option" where
  "Validate v rv sp root = snd (Validate_run v rv sp root)"

definition Validate_calls :: "verifier \<Rightarrow> row_validator \<Rightarrow> ShareProof \<Rightarrow> bytes \<Rightarrow> event list" where
  "Validate_calls v rv sp root = fst (Validate_run v rv sp root)"

subsection \<open>The steps of Validate, stated on the proof\<close>

text \<open>No row is nil; the share count that a row declares, in \<^verbatim>\<open>int32\<close>.\<close>

definition rows_present :: "ShareProof \<Rightarrow> bool" where
  "rows_present sp = list_all (\<lambda>p. p \<noteq> None) (ShareProofs sp)"

definition share_count :: "NMTProof option \<Rightarrow> int32" where
  "share_count p = (case p of None \<Rightarrow> 0 | Some q \<Rightarrow> End q - Start q)"

definition count_consistent :: "ShareProof \<Rightarrow> bool" where
  "count_consistent sp =
     (length (RowRoots (RowProof sp)) = length (ShareProofs sp)
      \<and> (of_nat (len (Data sp)) :: int32) = sum_list (map share_count (ShareProofs sp)))"

definition range_sane :: "ShareProof \<Rightarrow> bool" where
  "range_sane sp =
     list_all (\<lambda>p. case p of None \<Rightarrow> False
                    | Some q \<Rightarrow> 0 \<le> sint (Start q) \<and> 0 < sint (End q - Start q))
       (ShareProofs sp)"

subsection \<open>The rows of VerifyProof, stated on the proof\<close>

text \<open>
  The cursor that \<^verbatim>\<open>VerifyProof\<close> holds when it reaches row \<open>i\<close>: the \<^verbatim>\<open>int32\<close> sum of the share
  counts of the rows before it. The bounds of the slice it takes for row \<open>i\<close>.
\<close>

definition cursor_at :: "ShareProof \<Rightarrow> nat \<Rightarrow> int32" where
  "cursor_at sp i = sum_list (map share_count (take i (ShareProofs sp)))"

definition row_lo :: "ShareProof \<Rightarrow> nat \<Rightarrow> int" where
  "row_lo sp i = sint (cursor_at sp i)"

definition row_hi :: "ShareProof \<Rightarrow> nat \<Rightarrow> int" where
  "row_hi sp i = sint (share_count (ShareProofs sp ! i) + cursor_at sp i)"

text \<open>
  Row \<open>i\<close> can be read: it is not nil, its slice lies within the capacity of \<^verbatim>\<open>Data\<close>, and it
  has a row root. The panic of a row that cannot be read.
\<close>

definition slice_in_bounds :: "ShareProof \<Rightarrow> nat \<Rightarrow> bool" where
  "slice_in_bounds sp i =
     (0 \<le> row_lo sp i \<and> row_lo sp i \<le> row_hi sp i \<and> row_hi sp i \<le> int (cap (Data sp)))"

definition row_readable :: "ShareProof \<Rightarrow> nat \<Rightarrow> bool" where
  "row_readable sp i =
     (ShareProofs sp ! i \<noteq> None \<and> slice_in_bounds sp i \<and> i < length (RowRoots (RowProof sp)))"

definition row_panic :: "ShareProof \<Rightarrow> nat \<Rightarrow> panic" where
  "row_panic sp i =
     (if ShareProofs sp ! i = None then NilDereference
      else if \<not> slice_in_bounds sp i then SliceBoundsOutOfRange
      else IndexOutOfRange)"

text \<open>The leaves of row \<open>i\<close>, and the call that \<^verbatim>\<open>VerifyProof\<close> makes for it.\<close>

definition row_leaves :: "ShareProof \<Rightarrow> nat \<Rightarrow> bytes list" where
  "row_leaves sp i =
     take (nat (row_hi sp i - row_lo sp i))
       (drop (nat (row_lo sp i)) (elems (Data sp) @ spare (Data sp)))"

definition row_call :: "ShareProof \<Rightarrow> nat \<Rightarrow> event" where
  "row_call sp i =
     (let p = the (ShareProofs sp ! i)
      in VerifyInclusion (sint (Start p)) (sint (End p)) (Nodes p) (NamespaceID sp)
           (row_leaves sp i) (RowRoots (RowProof sp) ! i))"

definition row_verifies :: "verifier \<Rightarrow> ShareProof \<Rightarrow> nat \<Rightarrow> bool" where
  "row_verifies v sp i =
     (let p = the (ShareProofs sp ! i)
      in v (sint (Start p)) (sint (End p)) (Nodes p) (NamespaceID sp)
           (row_leaves sp i) (RowRoots (RowProof sp) ! i))"

text \<open>
  Two proofs with the same contents: they differ at most in the capacity of \<^verbatim>\<open>Data\<close> and in
  what lies in its backing array beyond \<^verbatim>\<open>len\<close>. Every row's slice ends within \<^verbatim>\<open>len(Data)\<close>.
\<close>

definition same_contents :: "ShareProof \<Rightarrow> ShareProof \<Rightarrow> bool" where
  "same_contents sp sp' =
     (elems (Data sp) = elems (Data sp') \<and> ShareProofs sp = ShareProofs sp'
      \<and> NamespaceID sp = NamespaceID sp' \<and> RowProof sp = RowProof sp')"

definition rows_within_len :: "ShareProof \<Rightarrow> bool" where
  "rows_within_len sp =
     list_all (\<lambda>i. row_hi sp i \<le> int (len (Data sp))) [0..<length (ShareProofs sp)]"

subsection \<open>Wire conversion\<close>

text \<open>
  Modelled from the spec: \<^verbatim>\<open>merkle.Proof.ToProto\<close> (crypto/merkle) and \<^verbatim>\<open>HexBytes.Bytes\<close>
  (libs/bytes), which \<^verbatim>\<open>ToProto\<close> calls, are not among the source files. The specification
  calls the wire conversion a lossless structural mapping and lists the fields of the
  message, so the first copies the four fields of a path into a new message, and the second
  returns the bytes as they are.
\<close>

definition Proof_ToProto :: "Proof \<Rightarrow> pb_Proof" where
  "Proof_ToProto p =
     \<lparr>pb_Total = Total p, pb_Index = Index p, pb_LeafHash = LeafHash p, pb_Aunts = Aunts p\<rparr>"

definition Bytes :: "bytes \<Rightarrow> bytes" where
  "Bytes bz = bz"

text \<open>The assignment \<^verbatim>\<open>s[i] = x\<close>.\<close>

definition assign :: "'a list \<Rightarrow> nat \<Rightarrow> 'a \<Rightarrow> panic + 'a list" where
  "assign s i x = (if i < length s then Inr (s[i := x]) else Inl IndexOutOfRange)"

text \<open>
  The loop of \<^verbatim>\<open>ToProto\<close> over the indices of \<^verbatim>\<open>sp.RowProof.RowRoots\<close>; the state is the pair of
  the slices \<^verbatim>\<open>rowRoots\<close> and \<^verbatim>\<open>rowProofs\<close>, the second made of nil pointers.
\<close>

fun ToProto_loop ::
  "RowProof \<Rightarrow> nat list \<Rightarrow> bytes list \<times> pb_Proof option list
     \<Rightarrow> panic + (bytes list \<times> pb_Proof option list)" where
  "ToProto_loop rp [] st = Inr st"
| "ToProto_loop rp (i # is) (rowRoots, rowProofs) =
     (case index (RowRoots rp) i of
        Inl e \<Rightarrow> Inl e
      | Inr r \<Rightarrow>
          (case assign rowRoots i (Bytes r) of
             Inl e \<Rightarrow> Inl e
           | Inr rowRoots' \<Rightarrow>
               (case index (Proofs rp) i of
                  Inl e \<Rightarrow> Inl e
                | Inr p \<Rightarrow>
                    (case assign rowProofs i (Some (Proof_ToProto p)) of
                       Inl e \<Rightarrow> Inl e
                     | Inr rowProofs' \<Rightarrow> ToProto_loop rp is (rowRoots', rowProofs')))))"

definition ToProto :: "ShareProof \<Rightarrow> panic + pb_ShareProof" where
  "ToProto sp =
     (let rowRoots = replicate (length (RowRoots (RowProof sp))) [];
          rowProofs = replicate (length (Proofs (RowProof sp))) None
      in case ToProto_loop (RowProof sp) [0..<length (RowRoots (RowProof sp))] (rowRoots, rowProofs) of
           Inl e \<Rightarrow> Inl e
         | Inr (rowRoots', rowProofs') \<Rightarrow>
             Inr \<lparr>pb_Data = Data sp,
                  pb_ShareProofs = ShareProofs sp,
                  NamespaceId = NamespaceID sp,
                  pb_RowProof = Some \<lparr>pb_RowRoots = rowRoots',
                                      pb_Proofs = rowProofs',
                                      pb_StartRow = StartRow (RowProof sp),
                                      pb_EndRow = EndRow (RowProof sp)\<rparr>\<rparr>)"

text \<open>The composite literal \<^verbatim>\<open>&merkle.Proof{Total: ..., Index: ..., LeafHash: ..., Aunts: ...}\<close>.\<close>

definition Proof_literal :: "pb_Proof \<Rightarrow> Proof" where
  "Proof_literal p =
     \<lparr>Total = pb_Total p, Index = pb_Index p, LeafHash = pb_LeafHash p, Aunts = pb_Aunts p\<rparr>"

text \<open>
  The loop of \<^verbatim>\<open>ShareProofFromProto\<close> over the indices of \<^verbatim>\<open>pb.RowProof.Proofs\<close>. The slice
  \<^verbatim>\<open>rowProofs\<close> is made of nil pointers and every entry of it is assigned by the loop.
\<close>

fun FromProto_loop ::
  "pb_RowProof \<Rightarrow> nat list \<Rightarrow> bytes list \<times> Proof option list
     \<Rightarrow> panic + (bytes list \<times> Proof option list)" where
  "FromProto_loop rp [] st = Inr st"
| "FromProto_loop rp (i # is) (rowRoots, rowProofs) =
     (case index (pb_RowRoots rp) i of
        Inl e \<Rightarrow> Inl e
      | Inr r \<Rightarrow>
          (case assign rowRoots i r of
             Inl e \<Rightarrow> Inl e
           | Inr rowRoots' \<Rightarrow>
               (case index (pb_Proofs rp) i of
                  Inl e \<Rightarrow> Inl e
                | Inr None \<Rightarrow> Inl NilDereference
                | Inr (Some p) \<Rightarrow>
                    (case assign rowProofs i (Some (Proof_literal p)) of
                       Inl e \<Rightarrow> Inl e
                     | Inr rowProofs' \<Rightarrow> FromProto_loop rp is (rowRoots', rowProofs')))))"

definition ShareProofFromProto :: "pb_ShareProof \<Rightarrow> panic + (ShareProof \<times> error option)" where
  "ShareProofFromProto pb =
     (case pb_RowProof pb of
        None \<Rightarrow> Inl NilDereference
      | Some rp \<Rightarrow>
          (let rowRoots = replicate (length (pb_RowRoots rp)) [];
               rowProofs = replicate (length (pb_Proofs rp)) None
           in case FromProto_loop rp [0..<length (pb_Proofs rp)] (rowRoots, rowProofs) of
                Inl e \<Rightarrow> Inl e
              | Inr (rowRoots', rowProofs') \<Rightarrow>
                  Inr (\<lparr>Data = pb_Data pb,
                        ShareProofs = pb_ShareProofs pb,
                        NamespaceID = NamespaceId pb,
                        RowProof = \<lparr>RowRoots = rowRoots',
                                     Proofs = map the rowProofs',
                                     StartRow = pb_StartRow rp,
                                     EndRow = pb_EndRow rp\<rparr>\<rparr>, None)))"

subsection \<open>Validate and VerifyProof over an explicit memory\<close>

text \<open>
  The same two functions with the memory they work on made explicit: the memory holds the
  proof and the caller's root, each read of the source is a read of the current memory, and
  each function returns the memory it leaves behind. A collaborator is handed slices that
  alias the proof, so here it may write: it takes the memory and returns the new one with
  its verdict. The source between the calls assigns its local variables only
  (\<^verbatim>\<open>numberOfSharesInProofs\<close>, \<^verbatim>\<open>cursor\<close>, \<^verbatim>\<open>sharesUsed\<close>, \<^verbatim>\<open>valid\<close>), so no step of these
  definitions writes.
\<close>

record memory =
  mem_proof :: ShareProof
  mem_root :: bytes

type_synonym verifier_st =
  "int \<Rightarrow> int \<Rightarrow> bytes list \<Rightarrow> bytes \<Rightarrow> bytes list \<Rightarrow> bytes \<Rightarrow> memory \<Rightarrow> bool \<times> memory"
type_synonym row_validator_st = "RowProof \<Rightarrow> bytes \<Rightarrow> memory \<Rightarrow> error option \<times> memory"

text \<open>The loop of \<^verbatim>\<open>VerifyProof\<close> at row \<open>i\<close>, with \<open>n\<close> rows still to walk.\<close>

fun VerifyProof_st_loop ::
  "verifier_st \<Rightarrow> int32 \<Rightarrow> nat \<Rightarrow> nat \<Rightarrow> memory \<Rightarrow> (panic + bool) \<times> memory" where
  "VerifyProof_st_loop v cursor i 0 m = (Inr True, m)"
| "VerifyProof_st_loop v cursor i (Suc n) m =
     (case index (ShareProofs (mem_proof m)) i of
        Inl e \<Rightarrow> (Inl e, m)
      | Inr None \<Rightarrow> (Inl NilDereference, m)
      | Inr (Some p) \<Rightarrow>
          (let sharesUsed = End p - Start p in
           case slice_expr (Data (mem_proof m)) (sint cursor) (sint (sharesUsed + cursor)) of
             Inl e \<Rightarrow> (Inl e, m)
           | Inr leaves \<Rightarrow>
               (case index (RowRoots (RowProof (mem_proof m))) i of
                  Inl e \<Rightarrow> (Inl e, m)
                | Inr rowRoot \<Rightarrow>
                    (case v (sint (Start p)) (sint (End p)) (Nodes p) (NamespaceID (mem_proof m))
                            (elems leaves) rowRoot m of
                       (valid, m') \<Rightarrow>
                         if \<not> valid then (Inr False, m')
                         else VerifyProof_st_loop v (cursor + sharesUsed) (Suc i) n m'))))"

definition VerifyProof_st :: "verifier_st \<Rightarrow> memory \<Rightarrow> (panic + bool) \<times> memory" where
  "VerifyProof_st v m = VerifyProof_st_loop v 0 0 (length (ShareProofs (mem_proof m))) m"

definition Validate_st ::
  "verifier_st \<Rightarrow> row_validator_st \<Rightarrow> memory \<Rightarrow> (panic + error option) \<times> memory" where
  "Validate_st v rv m =
     (case numberOfSharesInProofs (ShareProofs (mem_proof m)) 0 of
        Inl e \<Rightarrow> (Inl e, m)
      | Inr n \<Rightarrow>
          if length (RowRoots (RowProof (mem_proof m))) \<noteq> length (ShareProofs (mem_proof m))
             \<or> (of_nat (len (Data (mem_proof m))) :: int32) \<noteq> n
          then (Inr (Some CountMismatch), m)
          else
            (case range_loop (ShareProofs (mem_proof m)) of
               Inl e \<Rightarrow> (Inl e, m)
             | Inr (Some e) \<Rightarrow> (Inr (Some e), m)
             | Inr None \<Rightarrow>
                 (case VerifyProof_st v m of
                    (Inl e, m') \<Rightarrow> (Inl e, m')
                  | (Inr valid, m') \<Rightarrow>
                      if \<not> valid then (Inr (Some InconsistentProof), m')
                      else
                        (case rv (RowProof (mem_proof m')) (mem_root m') m' of
                           (err, m'') \<Rightarrow> (Inr err, m'')))))"

text \<open>A collaborator that only reads: it leaves every memory as it found it.\<close>

definition read_only_verifier :: "verifier_st \<Rightarrow> bool" where
  "read_only_verifier v = (\<forall>s e ns nid ls r m. snd (v s e ns nid ls r m) = m)"

definition read_only_row_validator :: "row_validator_st \<Rightarrow> bool" where
  "read_only_row_validator rv = (\<forall>rp r m. snd (rv rp r m) = m)"

subsection \<open>Example inputs\<close>

text \<open>
  A toy row-inclusion verifier for the examples: the row root of a row is the concatenation of
  its shares. \<open>rows_valid\<close> and \<open>rows_invalid\<close> stand for a \<^verbatim>\<open>RowProof.Validate\<close> that accepts,
  and one that rejects; \<open>rows_inconsistent\<close> for one that rejects with the message that
  \<^verbatim>\<open>ShareProof.Validate\<close> uses itself.
\<close>

definition concat_verifier :: verifier where
  "concat_verifier start end' nodes nID leaves root = (concat leaves = root)"

definition rows_valid :: row_validator where
  "rows_valid rp root = None"

definition rows_invalid :: row_validator where
  "rows_invalid rp root = Some (errors_New ''row proof failed to verify'')"

definition rows_inconsistent :: row_validator where
  "rows_inconsistent rp root = Some (errors_New ''proof is not internally consistent'')"

text \<open>Two rows: shares \<open>s0, s1\<close> in row 0 and \<open>s2\<close> in row 1.\<close>

definition two_rows :: ShareProof where
  "two_rows =
     \<lparr>Data = \<lparr>elems = [[1], [2], [3]], spare = []\<rparr>,
      ShareProofs = [Some \<lparr>Start = 0, End = 2, Nodes = []\<rparr>, Some \<lparr>Start = 0, End = 1, Nodes = []\<rparr>],
      NamespaceID = [7],
      RowProof = \<lparr>RowRoots = [[1, 2], [3]],
                   Proofs = [\<lparr>Total = 2, Index = 0, LeafHash = [9], Aunts = [[8]]\<rparr>,
                             \<lparr>Total = 2, Index = 1, LeafHash = [6], Aunts = [[5]]\<rparr>],
                   StartRow = 0, EndRow = 1\<rparr>\<rparr>"

text \<open>
  The same proof with \<^verbatim>\<open>Data\<close> reordered, with one row root too few, with a negative start,
  with a nil second row.
\<close>

definition two_rows_reordered :: ShareProof where
  "two_rows_reordered = two_rows\<lparr>Data := \<lparr>elems = [[3], [1], [2]], spare = []\<rparr>\<rparr>"

definition two_rows_one_root :: ShareProof where
  "two_rows_one_root = two_rows\<lparr>RowProof := (RowProof two_rows)\<lparr>RowRoots := [[1, 2]]\<rparr>\<rparr>"

definition two_rows_negative :: ShareProof where
  "two_rows_negative =
     two_rows\<lparr>ShareProofs := [Some \<lparr>Start = - 1, End = 1, Nodes = []\<rparr>,
                               Some \<lparr>Start = 0, End = 1, Nodes = []\<rparr>]\<rparr>"

definition two_rows_nil :: ShareProof where
  "two_rows_nil = two_rows\<lparr>ShareProofs := [Some \<lparr>Start = 0, End = 2, Nodes = []\<rparr>, None]\<rparr>"

text \<open>The two rows again, over a \<^verbatim>\<open>Data\<close> of capacity 4 whose backing array holds a fourth share.\<close>

definition two_rows_spare :: ShareProof where
  "two_rows_spare = two_rows\<lparr>Data := \<lparr>elems = [[1], [2], [3]], spare = [[4]]\<rparr>\<rparr>"

text \<open>No rows at all.\<close>

definition zero_rows :: ShareProof where
  "zero_rows =
     \<lparr>Data = \<lparr>elems = [], spare = []\<rparr>, ShareProofs = [], NamespaceID = [7],
      RowProof = \<lparr>RowRoots = [], Proofs = [], StartRow = 1, EndRow = 0\<rparr>\<rparr>"

text \<open>One row that declares one share, and a \<^verbatim>\<open>Data\<close> of no share and no capacity.\<close>

definition one_row_no_data :: ShareProof where
  "one_row_no_data =
     \<lparr>Data = \<lparr>elems = [], spare = []\<rparr>,
      ShareProofs = [Some \<lparr>Start = 0, End = 1, Nodes = []\<rparr>], NamespaceID = [7],
      RowProof = \<lparr>RowRoots = [[1]], Proofs = [], StartRow = 0, EndRow = 0\<rparr>\<rparr>"

text \<open>
  One row that declares four shares, over a \<^verbatim>\<open>Data\<close> of three shares: once with capacity 3,
  as a literal has it, and once with capacity 4, as three \<^verbatim>\<open>append\<close>s leave it, the fourth
  element of the backing array being nil.
\<close>

definition three_shares_cap3 :: ShareProof where
  "three_shares_cap3 =
     \<lparr>Data = \<lparr>elems = [[1], [2], [3]], spare = []\<rparr>,
      ShareProofs = [Some \<lparr>Start = 0, End = 4, Nodes = []\<rparr>], NamespaceID = [7],
      RowProof = \<lparr>RowRoots = [[1, 2, 3]], Proofs = [], StartRow = 0, EndRow = 0\<rparr>\<rparr>"

definition three_shares_cap4 :: ShareProof where
  "three_shares_cap4 = three_shares_cap3\<lparr>Data := \<lparr>elems = [[1], [2], [3]], spare = [[]]\<rparr>\<rparr>"

text \<open>
  Three rows that declare \<open>2147483647 + 2147483647 + 3 = 4294967297\<close> shares, which is \<open>1\<close> in
  \<^verbatim>\<open>int32\<close>, and one share in a \<^verbatim>\<open>Data\<close> of capacity 1.
\<close>

definition overflow_rows :: ShareProof where
  "overflow_rows =
     \<lparr>Data = \<lparr>elems = [[1]], spare = []\<rparr>,
      ShareProofs = [Some \<lparr>Start = 0, End = 2147483647, Nodes = []\<rparr>,
                     Some \<lparr>Start = 0, End = 2147483647, Nodes = []\<rparr>,
                     Some \<lparr>Start = 0, End = 3, Nodes = []\<rparr>],
      NamespaceID = [7],
      RowProof = \<lparr>RowRoots = [[1], [2], [3]], Proofs = [], StartRow = 0, EndRow = 2\<rparr>\<rparr>"

text \<open>The same, with a first row whose end \<open>-2147483648\<close> lies below its start \<open>1\<close>.\<close>

definition backwards_row :: ShareProof where
  "backwards_row =
     overflow_rows\<lparr>ShareProofs :=
       [Some \<lparr>Start = 1, End = - 2147483648, Nodes = []\<rparr>,
        Some \<lparr>Start = 0, End = 2147483647, Nodes = []\<rparr>,
        Some \<lparr>Start = 0, End = 3, Nodes = []\<rparr>]\<rparr>"

text \<open>
  Four rows that declare \<open>2 + 2147483647 + 2147483647 + 1 = 4294967297\<close> shares, which is \<open>1\<close>
  in \<^verbatim>\<open>int32\<close>, over a \<^verbatim>\<open>Data\<close> of one share: once with capacity 1 and once with capacity 2, the
  backing array holding a second share. The first row root is not the concatenation of the
  two shares that the first row declares.
\<close>

definition wrapping_rows_cap1 :: ShareProof where
  "wrapping_rows_cap1 =
     \<lparr>Data = \<lparr>elems = [[1]], spare = []\<rparr>,
      ShareProofs = [Some \<lparr>Start = 0, End = 2, Nodes = []\<rparr>,
                     Some \<lparr>Start = 0, End = 2147483647, Nodes = []\<rparr>,
                     Some \<lparr>Start = 0, End = 2147483647, Nodes = []\<rparr>,
                     Some \<lparr>Start = 0, End = 1, Nodes = []\<rparr>],
      NamespaceID = [7],
      RowProof = \<lparr>RowRoots = [[9], [2], [3], [4]], Proofs = [], StartRow = 0, EndRow = 3\<rparr>\<rparr>"

definition wrapping_rows_cap2 :: ShareProof where
  "wrapping_rows_cap2 = wrapping_rows_cap1\<lparr>Data := \<lparr>elems = [[1]], spare = [[2]]\<rparr>\<rparr>"

text \<open>
  Wire messages: a well-formed one, one with more paths than row roots, one with fewer (and
  no shares), one with a nil path, one without its row proof.
\<close>

definition pb_two_rows :: pb_ShareProof where
  "pb_two_rows =
     \<lparr>pb_Data = \<lparr>elems = [[1], [2], [3]], spare = []\<rparr>,
      pb_ShareProofs = [Some \<lparr>Start = 0, End = 2, Nodes = []\<rparr>, Some \<lparr>Start = 0, End = 1, Nodes = []\<rparr>],
      NamespaceId = [7],
      pb_RowProof = Some \<lparr>pb_RowRoots = [[1, 2], [3]],
                          pb_Proofs = [Some \<lparr>pb_Total = 2, pb_Index = 0, pb_LeafHash = [9], pb_Aunts = [[8]]\<rparr>,
                                       Some \<lparr>pb_Total = 2, pb_Index = 1, pb_LeafHash = [6], pb_Aunts = [[5]]\<rparr>],
                          pb_StartRow = 0, pb_EndRow = 1\<rparr>\<rparr>"

definition pb_more_paths :: pb_ShareProof where
  "pb_more_paths =
     pb_two_rows\<lparr>pb_RowProof :=
       Some \<lparr>pb_RowRoots = [[1, 2]],
             pb_Proofs = [Some \<lparr>pb_Total = 2, pb_Index = 0, pb_LeafHash = [9], pb_Aunts = [[8]]\<rparr>,
                          Some \<lparr>pb_Total = 2, pb_Index = 1, pb_LeafHash = [6], pb_Aunts = [[5]]\<rparr>],
             pb_StartRow = 0, pb_EndRow = 1\<rparr>\<rparr>"

definition pb_fewer_paths :: pb_ShareProof where
  "pb_fewer_paths =
     pb_two_rows\<lparr>pb_Data := \<lparr>elems = [], spare = []\<rparr>,
       pb_RowProof :=
       Some \<lparr>pb_RowRoots = [[1, 2], [3]],
             pb_Proofs = [Some \<lparr>pb_Total = 2, pb_Index = 0, pb_LeafHash = [9], pb_Aunts = [[8]]\<rparr>],
             pb_StartRow = 0, pb_EndRow = 1\<rparr>\<rparr>"

definition pb_nil_path :: pb_ShareProof where
  "pb_nil_path =
     pb_two_rows\<lparr>pb_RowProof :=
       Some \<lparr>pb_RowRoots = [[1, 2], [3]],
             pb_Proofs = [Some \<lparr>pb_Total = 2, pb_Index = 0, pb_LeafHash = [9], pb_Aunts = [[8]]\<rparr>, None],
             pb_StartRow = 0, pb_EndRow = 1\<rparr>\<rparr>"

definition pb_no_row_proof :: pb_ShareProof where
  "pb_no_row_proof = pb_two_rows\<lparr>pb_RowProof := None\<rparr>"

text \<open>What \<^verbatim>\<open>ShareProofFromProto\<close> makes of the message with fewer paths than row roots.\<close>

definition decoded_fewer_paths :: ShareProof where
  "decoded_fewer_paths =
     \<lparr>Data = \<lparr>elems = [], spare = []\<rparr>,
      ShareProofs = [Some \<lparr>Start = 0, End = 2, Nodes = []\<rparr>, Some \<lparr>Start = 0, End = 1, Nodes = []\<rparr>],
      NamespaceID = [7],
      RowProof = \<lparr>RowRoots = [[1, 2], []],
                   Proofs = [\<lparr>Total = 2, Index = 0, LeafHash = [9], Aunts = [[8]]\<rparr>],
                   StartRow = 0, EndRow = 1\<rparr>\<rparr>"

text \<open>Collaborators over a memory that read only, and the memory that holds the two rows.\<close>

definition concat_verifier_st :: verifier_st where
  "concat_verifier_st start end' nodes nID leaves root m = (concat leaves = root, m)"

definition rows_valid_st :: row_validator_st where
  "rows_valid_st rp root m = (None, m)"

definition two_rows_memory :: memory where
  "two_rows_memory = \<lparr>mem_proof = two_rows, mem_root = [5]\<rparr>"

text \<open>A collaborator that writes: it accepts every row and clears the caller's root.\<close>

definition clearing_verifier_st :: verifier_st where
  "clearing_verifier_st start end' nodes nID leaves root m = (True, m\<lparr>mem_root := []\<rparr>)"

section \<open>Properties\<close>

lemma share_count_simps:
  "share_count None = 0" "share_count (Some q) = End q - Start q"
  by (simp_all add: share_count_def)

lemmas example_defs = two_rows_def two_rows_reordered_def two_rows_one_root_def
  two_rows_negative_def two_rows_nil_def two_rows_spare_def zero_rows_def one_row_no_data_def
  three_shares_cap3_def three_shares_cap4_def overflow_rows_def backwards_row_def
  wrapping_rows_cap1_def wrapping_rows_cap2_def concat_verifier_def rows_valid_def rows_invalid_def rows_inconsistent_def

lemmas run_defs = rows_present_def count_consistent_def range_sane_def share_count_simps
  VerifyProof_def VerifyProof_calls_def VerifyProof_run_def slice_expr_def index_def len_def cap_def

lemmas row_defs = row_readable_def slice_in_bounds_def row_panic_def row_verifies_def
  row_call_def row_leaves_def row_lo_def row_hi_def cursor_at_def share_count_simps len_def cap_def

lemmas wire_defs = pb_two_rows_def pb_more_paths_def pb_fewer_paths_def pb_nil_path_def
  pb_no_row_proof_def

subsection \<open>The loops of Validate\<close>

lemma numberOfSharesInProofs_sum:
  "numberOfSharesInProofs ps n =
     (if list_all (\<lambda>p. p \<noteq> None) ps then Inr (n + sum_list (map share_count ps))
      else Inl NilDereference)"
proof (induction ps arbitrary: n)
  case Nil
  then show ?case by simp
next
  case (Cons p ps)
  then show ?case by (cases p) (simp_all add: share_count_simps add.assoc)
qed

lemma range_loop_sane:
  "(range_loop ps = Inr None) =
     list_all (\<lambda>p. case p of None \<Rightarrow> False
                   | Some q \<Rightarrow> 0 \<le> sint (Start q) \<and> 0 < sint (End q - Start q)) ps"
proof (induction ps)
  case Nil
  then show ?case by simp
next
  case (Cons p ps)
  then show ?case by (cases p) (auto simp: not_less not_le)
qed

lemma range_loop_error: "range_loop ps = Inr (Some e) \<Longrightarrow> InvalidRange e"
proof (induction ps)
  case Nil
  then show ?case by simp
next
  case (Cons p ps)
  then show ?case by (cases p) (auto simp: InvalidRange_def split: if_splits)
qed

lemma range_loop_panic: "list_all (\<lambda>p. p \<noteq> None) ps \<Longrightarrow> range_loop ps \<noteq> Inl e"
proof (induction ps)
  case Nil
  then show ?case by simp
next
  case (Cons p ps)
  then show ?case by (cases p) auto
qed

lemma range_sane_rows_present: "range_sane sp \<Longrightarrow> rows_present sp"
  by (auto simp: range_sane_def rows_present_def list_all_iff split: option.splits)

lemma Validate_run_steps:
  "Validate_run v rv sp root =
     (if \<not> rows_present sp then ([], Inl NilDereference)
      else if \<not> count_consistent sp then ([], Inr (Some CountMismatch))
      else case range_loop (ShareProofs sp) of
        Inl e \<Rightarrow> ([], Inl e)
      | Inr (Some e) \<Rightarrow> ([], Inr (Some e))
      | Inr None \<Rightarrow>
         (case VerifyProof v sp of
            Inl e \<Rightarrow> (VerifyProof_calls v sp, Inl e)
          | Inr False \<Rightarrow> (VerifyProof_calls v sp, Inr (Some InconsistentProof))
          | Inr True \<Rightarrow> (VerifyProof_calls v sp @ [RowProof_Validate (RowProof sp) root],
                          Inr (rv (RowProof sp) root))))"
  unfolding Validate_run_def numberOfSharesInProofs_sum rows_present_def count_consistent_def
    VerifyProof_def VerifyProof_calls_def
  by (cases "VerifyProof_run v sp") (auto split: option.splits sum.splits bool.splits)

subsection \<open>C1: the four steps of Validate and their order\<close>

text \<open>
  C1. \<^verbatim>\<open>Validate(root)\<close> runs the count-consistency check, then the range-sanity check, then
  \<^verbatim>\<open>VerifyProof\<close>, then \<^verbatim>\<open>RowProof.Validate(root)\<close>. It returns nil exactly when all four pass. A
  step that fails ends the run: a count mismatch is reported first, whatever the ranges are,
  and an invalid range next, both before any collaborator is called; a \<^verbatim>\<open>VerifyProof\<close> that
  does not return true ends the run with the calls of \<^verbatim>\<open>VerifyProof\<close> only (the inconsistency
  error where it returned false, its panic where it panicked); and \<^verbatim>\<open>RowProof.Validate\<close> is
  called last, once, after every row verified, and its result is the result. A proof with a
  nil row passes no step: \<^verbatim>\<open>Validate\<close> panics in its first loop, before the count check.
\<close>

theorem Validate_fixed_order:
  "(Validate v rv sp root = Inr None \<longleftrightarrow>
      count_consistent sp \<and> range_sane sp \<and> VerifyProof v sp = Inr True
      \<and> rv (RowProof sp) root = None)
   \<and> (\<not> rows_present sp \<longrightarrow> Validate_run v rv sp root = ([], Inl NilDereference))
   \<and> (rows_present sp \<and> \<not> count_consistent sp \<longrightarrow>
        Validate_run v rv sp root = ([], Inr (Some CountMismatch)))
   \<and> (rows_present sp \<and> count_consistent sp \<and> \<not> range_sane sp \<longrightarrow>
        Validate_calls v rv sp root = []
        \<and> (\<exists>e. Validate v rv sp root = Inr (Some e) \<and> InvalidRange e))
   \<and> (count_consistent sp \<and> range_sane sp \<and> VerifyProof v sp \<noteq> Inr True \<longrightarrow>
        Validate_run v rv sp root =
          (VerifyProof_calls v sp,
           case VerifyProof v sp of Inl e \<Rightarrow> Inl e | Inr b \<Rightarrow> Inr (Some InconsistentProof)))
   \<and> (count_consistent sp \<and> range_sane sp \<and> VerifyProof v sp = Inr True \<longrightarrow>
        Validate_run v rv sp root =
          (VerifyProof_calls v sp @ [RowProof_Validate (RowProof sp) root],
           Inr (rv (RowProof sp) root)))"
proof -
  have r: "range_sane sp = (range_loop (ShareProofs sp) = Inr None)"
    by (simp add: range_sane_def range_loop_sane)
  have p: "range_loop (ShareProofs sp) = Inr None \<Longrightarrow> rows_present sp"
    using range_sane_rows_present r by blast
  have e: "range_loop (ShareProofs sp) = Inr (Some x) \<Longrightarrow> InvalidRange x" for x
    by (rule range_loop_error)
  have n: "rows_present sp \<Longrightarrow> range_loop (ShareProofs sp) \<noteq> Inl x" for x
    unfolding rows_present_def by (rule range_loop_panic)
  show ?thesis
    unfolding Validate_def Validate_calls_def Validate_run_steps r
    using e n p
    by (auto simp: CountMismatch_def InconsistentProof_def
          split: option.splits sum.splits bool.splits)
qed

theorem Validate_fixed_order_witness:
  "Validate concat_verifier rows_valid two_rows [] = Inr None
   \<and> Validate_run concat_verifier rows_valid two_rows_nil [] = ([], Inl NilDereference)
   \<and> Validate_run concat_verifier rows_valid two_rows_one_root [] = ([], Inr (Some CountMismatch))
   \<and> Validate_calls concat_verifier rows_valid two_rows_negative [] = []
   \<and> (\<exists>e. Validate concat_verifier rows_valid two_rows_negative [] = Inr (Some e) \<and> InvalidRange e)
   \<and> Validate_run concat_verifier rows_valid two_rows_reordered [] =
        ([VerifyInclusion 0 2 [] [7] [[3], [1]] [1, 2]], Inr (Some InconsistentProof))
   \<and> Validate_run concat_verifier rows_invalid two_rows [] =
        ([VerifyInclusion 0 2 [] [7] [[1], [2]] [1, 2], VerifyInclusion 0 1 [] [7] [[3]] [3],
          RowProof_Validate (RowProof two_rows) []],
         Inr (Some (errors_New ''row proof failed to verify'')))"
proof -
  have a: "rows_present two_rows \<and> count_consistent two_rows \<and> range_sane two_rows
           \<and> VerifyProof concat_verifier two_rows = Inr True
           \<and> rows_valid (RowProof two_rows) [] = None"
    by (simp add: example_defs run_defs)
  have a': "VerifyProof_calls concat_verifier two_rows =
              [VerifyInclusion 0 2 [] [7] [[1], [2]] [1, 2], VerifyInclusion 0 1 [] [7] [[3]] [3]]
            \<and> rows_invalid (RowProof two_rows) [] = Some (errors_New ''row proof failed to verify'')"
    by (simp add: example_defs run_defs)
  have b: "rows_present two_rows_one_root \<and> \<not> count_consistent two_rows_one_root"
    by (simp add: example_defs run_defs)
  have c: "rows_present two_rows_negative \<and> count_consistent two_rows_negative
           \<and> \<not> range_sane two_rows_negative"
    by (simp add: example_defs run_defs)
  have d: "count_consistent two_rows_reordered \<and> range_sane two_rows_reordered
           \<and> VerifyProof concat_verifier two_rows_reordered = Inr False
           \<and> VerifyProof_calls concat_verifier two_rows_reordered =
               [VerifyInclusion 0 2 [] [7] [[3], [1]] [1, 2]]"
    by (simp add: example_defs run_defs)
  have n: "\<not> rows_present two_rows_nil"
    by (simp add: example_defs run_defs)
  show ?thesis
    using a a' b c d n
      Validate_fixed_order [of concat_verifier rows_valid two_rows "[]"]
      Validate_fixed_order [of concat_verifier rows_valid two_rows_nil "[]"]
      Validate_fixed_order [of concat_verifier rows_valid two_rows_one_root "[]"]
      Validate_fixed_order [of concat_verifier rows_valid two_rows_negative "[]"]
      Validate_fixed_order [of concat_verifier rows_valid two_rows_reordered "[]"]
      Validate_fixed_order [of concat_verifier rows_invalid two_rows "[]"]
    by simp
qed

subsection \<open>C2: VerifyProof walks the rows with a running cursor\<close>

lemma cursor_at_Suc:
  "i < length (ShareProofs sp) \<Longrightarrow>
   cursor_at sp (Suc i) = cursor_at sp i + share_count (ShareProofs sp ! i)"
  by (simp add: cursor_at_def take_Suc_conv_app_nth)

lemma VerifyProof_loop_step:
  assumes "i < length (ShareProofs sp)"
  shows "VerifyProof_loop v sp (cursor_at sp i) i (drop i (ShareProofs sp)) =
     (if \<not> row_readable sp i then ([], Inl (row_panic sp i))
      else if \<not> row_verifies v sp i then ([row_call sp i], Inr False)
      else case VerifyProof_loop v sp (cursor_at sp (Suc i)) (Suc i) (drop (Suc i) (ShareProofs sp)) of
             (calls, r) \<Rightarrow> (row_call sp i # calls, r))"
proof -
  have d: "drop i (ShareProofs sp) = ShareProofs sp ! i # drop (Suc i) (ShareProofs sp)"
    using assms by (simp add: Cons_nth_drop_Suc)
  show ?thesis
  proof (cases "ShareProofs sp ! i")
    case None
    then show ?thesis
      unfolding d by (simp add: row_readable_def row_panic_def)
  next
    case (Some p)
    then show ?thesis
      unfolding d
      by (simp add: cursor_at_Suc [OF assms] row_readable_def slice_in_bounds_def row_panic_def
          row_verifies_def row_call_def row_leaves_def row_lo_def row_hi_def slice_expr_def
          index_def share_count_simps Let_def)
  qed
qed

lemma VerifyProof_loop_prefix:
  assumes "k \<le> length (ShareProofs sp)" and "\<forall>i<k. row_readable sp i \<and> row_verifies v sp i"
  shows "VerifyProof_loop v sp (cursor_at sp 0) 0 (drop 0 (ShareProofs sp)) =
     (case VerifyProof_loop v sp (cursor_at sp k) k (drop k (ShareProofs sp)) of
        (calls, r) \<Rightarrow> (map (row_call sp) [0..<k] @ calls, r))"
  using assms
proof (induction k)
  case 0
  then show ?case by (simp split: prod.splits)
next
  case (Suc k)
  then have k: "k < length (ShareProofs sp)" and ok: "row_readable sp k" "row_verifies v sp k"
    by auto
  from Suc have "VerifyProof_loop v sp (cursor_at sp 0) 0 (drop 0 (ShareProofs sp)) =
     (case VerifyProof_loop v sp (cursor_at sp k) k (drop k (ShareProofs sp)) of
        (calls, r) \<Rightarrow> (map (row_call sp) [0..<k] @ calls, r))"
    by simp
  then show ?case
    by (simp add: VerifyProof_loop_step [OF k] ok split: prod.splits)
qed

lemma VerifyProof_run_prefix:
  assumes "k \<le> length (ShareProofs sp)" and "\<forall>i<k. row_readable sp i \<and> row_verifies v sp i"
  shows "VerifyProof_run v sp =
     (case VerifyProof_loop v sp (cursor_at sp k) k (drop k (ShareProofs sp)) of
        (calls, r) \<Rightarrow> (map (row_call sp) [0..<k] @ calls, r))"
  using VerifyProof_loop_prefix [OF assms] by (simp add: VerifyProof_run_def cursor_at_def)

text \<open>
  C2, as stated, fails: \<^verbatim>\<open>VerifyProof\<close> does raise. On a proof with one row that declares one
  share and with a \<^verbatim>\<open>Data\<close> of no share and no capacity, the slice \<^verbatim>\<open>sp.Data[0:1]\<close> panics.
\<close>

theorem VerifyProof_raises_counterexample:
  "VerifyProof concat_verifier one_row_no_data = Inl SliceBoundsOutOfRange"
  by (simp add: example_defs run_defs)

text \<open>
  C2, amended. \<^verbatim>\<open>VerifyProof\<close> walks the rows in order, the cursor starting at 0 and advancing
  by \<open>end[i] - start[i]\<close> (in \<^verbatim>\<open>int32\<close>). A row \<open>i\<close> is readable when it is not nil, its slice
  lies within the capacity of \<^verbatim>\<open>Data\<close> (\<open>0 \<le> cursor \<le> cursor + (end[i] - start[i]) \<le> cap(Data)\<close>;
  beyond \<^verbatim>\<open>len(Data)\<close> the slice takes what the backing array holds) and \<^verbatim>\<open>RowRoots\<close> has an
  entry \<open>i\<close>. Let the rows before row \<open>k\<close> be readable and verify. The verifier has then been
  called on rows \<open>0 .. k-1\<close>, in order, each time with \<open>start[i]\<close>, \<open>end[i]\<close>, the namespace,
  the slice \<^verbatim>\<open>Data[cursor : cursor + (end[i] - start[i])]\<close> and \<^verbatim>\<open>RowRoots[i]\<close>, and
  \<^item> if \<open>k\<close> is the number of rows, the result is true;
  \<^item> if row \<open>k\<close> is readable and fails to verify, the result is false and no row after \<open>k\<close> is
    checked;
  \<^item> if row \<open>k\<close> is not readable, \<^verbatim>\<open>VerifyProof\<close> panics there instead of returning: with a nil
    dereference for a nil row, else with slice bounds out of range, else with index out of
    range.
\<close>

theorem VerifyProof_walk:
  assumes "k \<le> length (ShareProofs sp)" and "\<forall>i<k. row_readable sp i \<and> row_verifies v sp i"
  shows "(k = length (ShareProofs sp) \<longrightarrow>
            VerifyProof_run v sp = (map (row_call sp) [0..<k], Inr True))
       \<and> (k < length (ShareProofs sp) \<and> row_readable sp k \<and> \<not> row_verifies v sp k \<longrightarrow>
            VerifyProof_run v sp = (map (row_call sp) [0..<Suc k], Inr False))
       \<and> (k < length (ShareProofs sp) \<and> \<not> row_readable sp k \<longrightarrow>
            VerifyProof_run v sp = (map (row_call sp) [0..<k], Inl (row_panic sp k)))"
  by (simp add: VerifyProof_run_prefix [OF assms] VerifyProof_loop_step)

theorem VerifyProof_walk_witness:
  "VerifyProof_run concat_verifier two_rows =
     ([VerifyInclusion 0 2 [] [7] [[1], [2]] [1, 2], VerifyInclusion 0 1 [] [7] [[3]] [3]], Inr True)
   \<and> VerifyProof_run concat_verifier two_rows_reordered =
     ([VerifyInclusion 0 2 [] [7] [[3], [1]] [1, 2]], Inr False)
   \<and> VerifyProof_run concat_verifier two_rows_one_root =
     ([VerifyInclusion 0 2 [] [7] [[1], [2]] [1, 2]], Inl IndexOutOfRange)
   \<and> VerifyProof_run concat_verifier two_rows_nil =
     ([VerifyInclusion 0 2 [] [7] [[1], [2]] [1, 2]], Inl NilDereference)
   \<and> VerifyProof_run concat_verifier three_shares_cap3 = ([], Inl SliceBoundsOutOfRange)
   \<and> VerifyProof_run concat_verifier three_shares_cap4 =
     ([VerifyInclusion 0 4 [] [7] [[1], [2], [3], []] [1, 2, 3]], Inr True)"
proof -
  have two: "\<forall>i<2. row_readable two_rows i \<and> row_verifies concat_verifier two_rows i"
    by (simp add: numeral_2_eq_2 less_Suc_eq example_defs row_defs)
  have one: "\<forall>i<1. row_readable two_rows_one_root i \<and> row_verifies concat_verifier two_rows_one_root i"
    by (simp add: example_defs row_defs)
  have nil: "\<forall>i<1. row_readable two_rows_nil i \<and> row_verifies concat_verifier two_rows_nil i"
    by (simp add: example_defs row_defs)
  have four: "\<forall>i<1. row_readable three_shares_cap4 i \<and> row_verifies concat_verifier three_shares_cap4 i"
    by (simp add: example_defs row_defs)
  have a: "map (row_call two_rows) [0..<2] =
      [VerifyInclusion 0 2 [] [7] [[1], [2]] [1, 2], VerifyInclusion 0 1 [] [7] [[3]] [3]]"
    by (simp add: numeral_2_eq_2 example_defs row_defs)
  have b: "row_readable two_rows_reordered 0 \<and> \<not> row_verifies concat_verifier two_rows_reordered 0
      \<and> map (row_call two_rows_reordered) [0..<Suc 0] = [VerifyInclusion 0 2 [] [7] [[3], [1]] [1, 2]]"
    by (simp add: example_defs row_defs)
  have c: "\<not> row_readable two_rows_one_root 1 \<and> row_panic two_rows_one_root 1 = IndexOutOfRange
      \<and> map (row_call two_rows_one_root) [0..<1] = [VerifyInclusion 0 2 [] [7] [[1], [2]] [1, 2]]"
    by (simp add: example_defs row_defs)
  have d: "\<not> row_readable two_rows_nil 1 \<and> row_panic two_rows_nil 1 = NilDereference
      \<and> map (row_call two_rows_nil) [0..<1] = [VerifyInclusion 0 2 [] [7] [[1], [2]] [1, 2]]"
    by (simp add: example_defs row_defs)
  have e: "\<not> row_readable three_shares_cap3 0 \<and> row_panic three_shares_cap3 0 = SliceBoundsOutOfRange"
    by (simp add: example_defs row_defs)
  have f: "map (row_call three_shares_cap4) [0..<1] =
      [VerifyInclusion 0 4 [] [7] [[1], [2], [3], []] [1, 2, 3]]"
    by (simp add: example_defs row_defs)
  show ?thesis
    using a b c d e f
      VerifyProof_walk [of 2 two_rows concat_verifier, OF _ two]
      VerifyProof_walk [of 0 two_rows_reordered concat_verifier]
      VerifyProof_walk [of 1 two_rows_one_root concat_verifier, OF _ one]
      VerifyProof_walk [of 1 two_rows_nil concat_verifier, OF _ nil]
      VerifyProof_walk [of 0 three_shares_cap3 concat_verifier]
      VerifyProof_walk [of 1 three_shares_cap4 concat_verifier, OF _ four]
    by (simp add: two_rows_def two_rows_reordered_def two_rows_one_root_def two_rows_nil_def
        three_shares_cap3_def three_shares_cap4_def)
qed

subsection \<open>C3: the count law\<close>

text \<open>
  C3 holds for the row roots: a proof whose number of row roots differs from its number of
  rows is refused with the count error, before any collaborator is called.
\<close>

lemma Validate_row_roots_mismatch:
  "rows_present sp \<Longrightarrow> length (RowRoots (RowProof sp)) \<noteq> length (ShareProofs sp) \<Longrightarrow>
   Validate_run v rv sp root = ([], Inr (Some CountMismatch))"
  by (simp add: Validate_run_steps count_consistent_def)

text \<open>
  C3 fails for the shares. \<^verbatim>\<open>Validate\<close> sums the declared share counts in \<^verbatim>\<open>int32\<close> and compares
  the sum with \<^verbatim>\<open>int32(len(sp.Data))\<close>. The three rows of \<open>overflow_rows\<close> declare
  \<open>4294967297\<close> shares and \<^verbatim>\<open>Data\<close> holds one; the sum wraps around to \<open>1\<close>, the count check
  passes, and \<^verbatim>\<open>Validate\<close> does not return the count error: it goes on and panics.
\<close>

theorem Validate_overflow_count:
  "int (len (Data overflow_rows)) = 1
   \<and> (\<Sum>p\<leftarrow>ShareProofs overflow_rows. sint (End (the p)) - sint (Start (the p))) = 4294967297
   \<and> Validate v rv overflow_rows root \<noteq> Inr (Some CountMismatch)
   \<and> Validate v rv overflow_rows root = Inl SliceBoundsOutOfRange"
  by (simp add: Validate_def Validate_run_steps range_loop_sane [symmetric] example_defs run_defs)

subsection \<open>C4: the range check\<close>

text \<open>
  C4 holds in one direction: a proof whose rows all have \<open>0 \<le> start < end\<close> passes the range
  check.
\<close>

lemma range_sane_if_ordered:
  assumes "\<forall>p\<in>set (ShareProofs sp). \<exists>q. p = Some q \<and> 0 \<le> sint (Start q) \<and> sint (Start q) < sint (End q)"
  shows "range_sane sp"
proof -
  have "0 < sint (End q - Start q)" if "0 \<le> sint (Start q)" "sint (Start q) < sint (End q)" for q :: NMTProof
  proof -
    have "sint (End q) < 2 ^ 31" using sint_lt [of "End q"] by simp
    moreover have "sint (End q - Start q) = signed_take_bit (31::nat) (sint (End q) - sint (Start q))"
      by (simp add: sint_word_ariths)
    ultimately have "sint (End q - Start q) = sint (End q) - sint (Start q)"
      using that by (simp add: signed_take_bit_int_eq_self)
    with that show ?thesis by simp
  qed
  with assms show ?thesis by (fastforce simp: range_sane_def list_all_iff)
qed

text \<open>
  C4 fails in the other direction. The range check computes \<open>end - start\<close> in \<^verbatim>\<open>int32\<close>. The
  first row of \<open>backwards_row\<close> has start \<open>1\<close> and end \<open>-2147483648\<close>; the difference wraps
  around to \<open>2147483647\<close>, the count check and the range check pass, and \<^verbatim>\<open>Validate\<close> does not
  return a range error: it goes on and panics.
\<close>

theorem Validate_backwards_row:
  "count_consistent backwards_row
   \<and> sint (End (the (ShareProofs backwards_row ! 0))) < sint (Start (the (ShareProofs backwards_row ! 0)))
   \<and> range_sane backwards_row
   \<and> Validate v rv backwards_row root = Inl SliceBoundsOutOfRange"
  by (simp add: Validate_def Validate_run_steps range_loop_sane [symmetric] example_defs run_defs)

subsection \<open>C5: bounds of the slices of Data\<close>

text \<open>
  Where no row is nil and the declared share counts add up to less than \<open>2^31\<close>, so that the
  \<^verbatim>\<open>int32\<close> sum does not wrap around, the two structural checks do keep every slice of
  \<^verbatim>\<open>VerifyProof\<close> within \<^verbatim>\<open>len(Data)\<close> and every lookup within \<^verbatim>\<open>RowRoots\<close>, and \<^verbatim>\<open>Validate\<close>
  returns.
\<close>

lemma sint_le_uint: "sint (w :: int32) \<le> uint w"
proof (cases "uint w < 2 ^ 31")
  case True
  moreover have "- (2 ^ 31) \<le> uint w"
    by (rule order_trans [OF _ uint_ge_0]) simp
  ultimately have "signed_take_bit (31::nat) (uint w) = uint w"
    by (intro signed_take_bit_int_eq_self)
  then show ?thesis by (simp add: sint_uint)
next
  case False
  then have "signed_take_bit (31::nat) (uint w) \<le> uint w - 2 ^ Suc 31"
    by (intro signed_take_bit_int_less_eq) simp
  then show ?thesis by (simp add: sint_uint)
qed

lemma sint_of_nat_le: "sint (of_nat n :: int32) \<le> int n"
proof -
  have "uint (of_nat n :: int32) = int (n mod 2 ^ 32)"
    by (simp add: uint_nat unat_of_nat)
  also have "\<dots> \<le> int n" by simp
  finally show ?thesis using sint_le_uint [of "of_nat n"] by linarith
qed

lemma sint_sum_list:
  fixes ws :: "int32 list"
  assumes "\<forall>w\<in>set ws. 0 \<le> sint w" and "sum_list (map sint ws) < 2 ^ 31"
  shows "sint (sum_list ws) = sum_list (map sint ws)"
  using assms
proof (induction ws)
  case Nil
  then show ?case by simp
next
  case (Cons w ws)
  have nn: "0 \<le> sum_list (map sint ws)"
    using Cons.prems(1) by (intro sum_list_nonneg) auto
  with Cons have ih: "sint (sum_list ws) = sum_list (map sint ws)" by simp
  have "sint (w + sum_list ws) = signed_take_bit (31::nat) (sint w + sint (sum_list ws))"
    by (simp add: sint_word_ariths)
  also have "\<dots> = sint w + sint (sum_list ws)"
    using Cons.prems nn ih by (simp add: signed_take_bit_int_eq_self)
  finally show ?case by (simp add: ih)
qed

lemma sum_list_take_le:
  fixes xs :: "int list"
  assumes "\<forall>x\<in>set xs. 0 \<le> x"
  shows "0 \<le> sum_list (take k xs) \<and> sum_list (take k xs) \<le> sum_list xs"
proof -
  have "sum_list xs = sum_list (take k xs) + sum_list (drop k xs)"
    by (metis append_take_drop_id sum_list_append)
  moreover have "0 \<le> sum_list (drop k xs)"
    using assms by (intro sum_list_nonneg) (auto dest: in_set_dropD)
  moreover have "0 \<le> sum_list (take k xs)"
    using assms by (intro sum_list_nonneg) (auto dest: in_set_takeD)
  ultimately show ?thesis by simp
qed

lemma rows_in_bounds_without_overflow:
  assumes c: "count_consistent sp" and r: "range_sane sp"
    and s: "(\<Sum>p\<leftarrow>ShareProofs sp. sint (share_count p)) < 2 ^ 31"
    and i: "i < length (ShareProofs sp)"
  shows "row_readable sp i \<and> row_hi sp i \<le> int (len (Data sp))"
proof -
  let ?ws = "map share_count (ShareProofs sp)"
  let ?ds = "map sint ?ws"
  have rowpos: "p \<noteq> None \<and> 0 \<le> sint (share_count p)" if "p \<in> set (ShareProofs sp)" for p
    using r that
    by (cases p) (auto simp: range_sane_def list_all_iff share_count_simps intro: less_imp_le)
  then have pos: "\<forall>w\<in>set ?ws. 0 \<le> sint w" by auto
  then have dpos: "\<forall>d\<in>set ?ds. 0 \<le> d" by auto
  have total: "sum_list ?ds < 2 ^ 31"
    using s by (simp add: comp_def)
  have part: "sint (sum_list (take k ?ws)) = sum_list (take k ?ds)" for k
  proof -
    have "sum_list (map sint (take k ?ws)) < 2 ^ 31"
      using sum_list_take_le [OF dpos, of k] total by (simp add: take_map)
    moreover have "\<forall>w\<in>set (take k ?ws). 0 \<le> sint w"
      using pos in_set_takeD by fast
    ultimately show ?thesis
      using sint_sum_list [of "take k ?ws"] by (simp add: take_map)
  qed
  have cur: "cursor_at sp k = sum_list (take k ?ws)" for k
    by (simp add: cursor_at_def take_map)
  have lo: "row_lo sp i = sum_list (take i ?ds)"
    by (simp add: row_lo_def cur part)
  have "share_count (ShareProofs sp ! i) + cursor_at sp i = cursor_at sp (Suc i)"
    using i by (simp add: cursor_at_def take_Suc_conv_app_nth)
  then have hi: "row_hi sp i = sum_list (take (Suc i) ?ds)"
    by (simp add: row_hi_def cur part)
  have step: "sum_list (take (Suc i) ?ds) = sum_list (take i ?ds) + ?ds ! i"
    using i by (simp add: take_Suc_conv_app_nth)
  from rowpos [of "ShareProofs sp ! i"] have present: "ShareProofs sp ! i \<noteq> None"
    and di: "0 \<le> ?ds ! i"
    using i by simp_all
  have "sum_list ?ds = sint (sum_list ?ws)"
    using sint_sum_list [OF pos total] by simp
  also have "\<dots> = sint (of_nat (len (Data sp)) :: int32)"
    using c by (simp add: count_consistent_def)
  also have "\<dots> \<le> int (len (Data sp))"
    by (rule sint_of_nat_le)
  finally have length: "sum_list ?ds \<le> int (len (Data sp))" .
  have "len (Data sp) \<le> cap (Data sp)"
    by (simp add: len_def cap_def)
  then have "slice_in_bounds sp i \<and> row_hi sp i \<le> int (len (Data sp))"
    unfolding slice_in_bounds_def lo hi
    using sum_list_take_le [OF dpos, of i] sum_list_take_le [OF dpos, of "Suc i"] step di length
    by linarith
  moreover have "i < length (RowRoots (RowProof sp))"
    using c i by (simp add: count_consistent_def)
  ultimately show ?thesis using present by (simp add: row_readable_def)
qed

lemma VerifyProof_returns_if_readable:
  assumes "\<forall>i<length (ShareProofs sp). row_readable sp i"
  shows "\<exists>b. VerifyProof v sp = Inr b"
proof (cases "\<forall>i<length (ShareProofs sp). row_verifies v sp i")
  case True
  with assms have "\<forall>i<length (ShareProofs sp). row_readable sp i \<and> row_verifies v sp i"
    by simp
  from VerifyProof_run_prefix [OF order_refl this] have "VerifyProof v sp = Inr True"
    by (simp add: VerifyProof_def)
  then show ?thesis by blast
next
  case False
  define k where "k = (LEAST i. i < length (ShareProofs sp) \<and> \<not> row_verifies v sp i)"
  from False have ex: "\<exists>i. i < length (ShareProofs sp) \<and> \<not> row_verifies v sp i" by auto
  have k: "k < length (ShareProofs sp)" "\<not> row_verifies v sp k"
    using LeastI_ex [OF ex] by (simp_all add: k_def)
  have before: "\<forall>i<k. row_readable sp i \<and> row_verifies v sp i"
  proof (intro allI impI)
    fix i assume "i < k"
    then have "\<not> (i < length (ShareProofs sp) \<and> \<not> row_verifies v sp i)"
      unfolding k_def by (rule not_less_Least)
    with \<open>i < k\<close> k(1) assms show "row_readable sp i \<and> row_verifies v sp i" by auto
  qed
  from VerifyProof_run_prefix [OF less_imp_le [OF k(1)] before] k assms
  have "VerifyProof v sp = Inr False"
    by (simp add: VerifyProof_def VerifyProof_loop_step)
  then show ?thesis by blast
qed

lemma Validate_no_panic_without_overflow:
  assumes "rows_present sp" and "(\<Sum>p\<leftarrow>ShareProofs sp. sint (share_count p)) < 2 ^ 31"
  shows "\<exists>r. Validate v rv sp root = Inr r"
proof (cases "count_consistent sp \<and> range_sane sp")
  case True
  then have "\<forall>i<length (ShareProofs sp). row_readable sp i"
    using rows_in_bounds_without_overflow [OF _ _ assms(2)] by simp
  from VerifyProof_returns_if_readable [OF this, of v] obtain b where "VerifyProof v sp = Inr b" ..
  with True assms(1) show ?thesis
    by (cases b) (simp_all add: Validate_def Validate_run_steps range_sane_def
        range_loop_sane [symmetric])
next
  case False
  show ?thesis
  proof (cases "count_consistent sp")
    case False
    with assms(1) show ?thesis by (simp add: Validate_def Validate_run_steps)
  next
    case True
    with \<open>\<not> (count_consistent sp \<and> range_sane sp)\<close>
    have "range_loop (ShareProofs sp) \<noteq> Inr None"
      by (simp add: range_sane_def range_loop_sane)
    moreover have "range_loop (ShareProofs sp) \<noteq> Inl e" for e
      using assms(1) unfolding rows_present_def by (rule range_loop_panic)
    ultimately show ?thesis
      using True assms(1)
      by (auto simp: Validate_def Validate_run_steps split: sum.splits option.splits)
  qed
qed

text \<open>
  C5 fails. On \<open>overflow_rows\<close> the count check and the range check pass, and the first slice
  that \<^verbatim>\<open>VerifyProof\<close> takes, \<^verbatim>\<open>sp.Data[0:2147483647]\<close> of a \<^verbatim>\<open>Data\<close> of capacity 1, is out of
  bounds: \<^verbatim>\<open>Validate\<close> panics, whatever the collaborators and the root are.
\<close>

theorem Validate_overflow_panics:
  "count_consistent overflow_rows \<and> range_sane overflow_rows
   \<and> cap (Data overflow_rows) = 1
   \<and> slice_expr (Data overflow_rows) 0 2147483647 = Inl SliceBoundsOutOfRange
   \<and> Validate_calls v rv overflow_rows root = []
   \<and> Validate v rv overflow_rows root = Inl SliceBoundsOutOfRange"
  by (simp add: Validate_def Validate_calls_def Validate_run_steps range_loop_sane [symmetric]
      example_defs run_defs)

subsection \<open>C6: a proof of zero rows\<close>

text \<open>
  C6. A proof with no rows, no row roots and no shares passes the count check and the range
  check, \<^verbatim>\<open>VerifyProof\<close> returns true without a call, and the result of \<^verbatim>\<open>Validate(root)\<close> is
  the result of \<^verbatim>\<open>RowProof.Validate(root)\<close>, which is the only call made.
\<close>

theorem Validate_zero_rows:
  assumes "ShareProofs sp = []" and "RowRoots (RowProof sp) = []" and "elems (Data sp) = []"
  shows "count_consistent sp \<and> range_sane sp \<and> VerifyProof_run v sp = ([], Inr True)
       \<and> Validate_run v rv sp root =
           ([RowProof_Validate (RowProof sp) root], Inr (rv (RowProof sp) root))
       \<and> Validate v rv sp root = Inr (rv (RowProof sp) root)"
  using assms
  by (simp add: Validate_def Validate_run_def VerifyProof_run_def count_consistent_def range_sane_def
      len_def split: option.splits)

theorem Validate_zero_rows_witness:
  "Validate_run concat_verifier rows_valid zero_rows [5] =
     ([RowProof_Validate (RowProof zero_rows) [5]], Inr None)
   \<and> Validate concat_verifier rows_invalid zero_rows [5] =
       Inr (Some (errors_New ''row proof failed to verify''))"
  using Validate_zero_rows [of zero_rows concat_verifier rows_valid "[5]"]
    Validate_zero_rows [of zero_rows concat_verifier rows_invalid "[5]"]
  by (simp add: zero_rows_def rows_valid_def rows_invalid_def)

subsection \<open>The loops of the wire conversion\<close>

lemma FromProto_loop_ok:
  assumes "\<forall>i\<in>set is. i < length rr \<and> i < length rps \<and> i < length (pb_RowRoots rp)
             \<and> i < length (pb_Proofs rp) \<and> pb_Proofs rp ! i \<noteq> None"
  shows "\<exists>rr' rps'. FromProto_loop rp is (rr, rps) = Inr (rr', rps')
           \<and> length rr' = length rr \<and> length rps' = length rps
           \<and> (\<forall>j<length rr. rr' ! j = (if j \<in> set is then pb_RowRoots rp ! j else rr ! j))
           \<and> (\<forall>j<length rps. rps' ! j =
                 (if j \<in> set is then Some (Proof_literal (the (pb_Proofs rp ! j))) else rps ! j))"
  using assms
proof (induction "is" arbitrary: rr rps)
  case Nil
  then show ?case by simp
next
  case (Cons i "is")
  from Cons.prems obtain p where i: "i < length rr" "i < length rps" "i < length (pb_RowRoots rp)"
    "i < length (pb_Proofs rp)" "pb_Proofs rp ! i = Some p"
    by auto
  let ?rr = "rr[i := pb_RowRoots rp ! i]" and ?rps = "rps[i := Some (Proof_literal p)]"
  have step: "FromProto_loop rp (i # is) (rr, rps) = FromProto_loop rp is (?rr, ?rps)"
    using i by (simp add: index_def assign_def)
  have "\<forall>k\<in>set is. k < length ?rr \<and> k < length ?rps \<and> k < length (pb_RowRoots rp)
             \<and> k < length (pb_Proofs rp) \<and> pb_Proofs rp ! k \<noteq> None"
    using Cons.prems by simp
  from Cons.IH [OF this] obtain rr' rps' where
    r: "FromProto_loop rp is (?rr, ?rps) = Inr (rr', rps')"
      "length rr' = length rr" "length rps' = length rps"
      "\<forall>j<length rr. rr' ! j = (if j \<in> set is then pb_RowRoots rp ! j else ?rr ! j)"
      "\<forall>j<length rps. rps' ! j =
                 (if j \<in> set is then Some (Proof_literal (the (pb_Proofs rp ! j))) else ?rps ! j)"
    by auto
  show ?case
    unfolding step r(1)
    using r(2-) i by (auto simp: nth_list_update)
qed

lemma FromProto_loop_panics:
  assumes "\<exists>i\<in>set is. length rr \<le> i"
  shows "\<exists>p. FromProto_loop rp is (rr, rps) = Inl p"
  using assms
proof (induction "is" arbitrary: rr rps)
  case Nil
  then show ?case by simp
next
  case (Cons i "is")
  show ?case
  proof (cases "length rr \<le> i")
    case True
    then show ?thesis by (simp add: index_def assign_def)
  next
    case False
    with Cons.prems have "\<exists>k\<in>set is. length (rr[i := x]) \<le> k" for x by auto
    from Cons.IH [OF this] show ?thesis
      by (auto simp: index_def assign_def split: sum.splits option.splits)
  qed
qed

lemma ToProto_loop_ok:
  assumes "\<forall>i\<in>set is. i < length rr \<and> i < length rps \<and> i < length (RowRoots rp)
             \<and> i < length (Proofs rp)"
  shows "\<exists>rr' rps'. ToProto_loop rp is (rr, rps) = Inr (rr', rps')
           \<and> length rr' = length rr \<and> length rps' = length rps
           \<and> (\<forall>j<length rr. rr' ! j = (if j \<in> set is then Bytes (RowRoots rp ! j) else rr ! j))
           \<and> (\<forall>j<length rps. rps' ! j =
                 (if j \<in> set is then Some (Proof_ToProto (Proofs rp ! j)) else rps ! j))"
  using assms
proof (induction "is" arbitrary: rr rps)
  case Nil
  then show ?case by simp
next
  case (Cons i "is")
  from Cons.prems have i: "i < length rr" "i < length rps" "i < length (RowRoots rp)"
    "i < length (Proofs rp)"
    by auto
  let ?rr = "rr[i := Bytes (RowRoots rp ! i)]"
    and ?rps = "rps[i := Some (Proof_ToProto (Proofs rp ! i))]"
  have step: "ToProto_loop rp (i # is) (rr, rps) = ToProto_loop rp is (?rr, ?rps)"
    using i by (simp add: index_def assign_def)
  have "\<forall>k\<in>set is. k < length ?rr \<and> k < length ?rps \<and> k < length (RowRoots rp)
             \<and> k < length (Proofs rp)"
    using Cons.prems by simp
  from Cons.IH [OF this] obtain rr' rps' where
    r: "ToProto_loop rp is (?rr, ?rps) = Inr (rr', rps')"
      "length rr' = length rr" "length rps' = length rps"
      "\<forall>j<length rr. rr' ! j = (if j \<in> set is then Bytes (RowRoots rp ! j) else ?rr ! j)"
      "\<forall>j<length rps. rps' ! j =
          (if j \<in> set is then Some (Proof_ToProto (Proofs rp ! j)) else ?rps ! j)"
    by auto
  show ?case
    unfolding step r(1)
    using r(2-) i by (auto simp: nth_list_update)
qed

lemma FromProto_loop_all:
  assumes "length (pb_Proofs rp) \<le> length (pb_RowRoots rp)"
    and "list_all (\<lambda>p. p \<noteq> None) (pb_Proofs rp)"
  shows "FromProto_loop rp [0..<length (pb_Proofs rp)]
           (replicate (length (pb_RowRoots rp)) [], replicate (length (pb_Proofs rp)) None) =
         Inr (take (length (pb_Proofs rp)) (pb_RowRoots rp)
                @ replicate (length (pb_RowRoots rp) - length (pb_Proofs rp)) [],
              map (\<lambda>p. Some (Proof_literal (the p))) (pb_Proofs rp))"
proof -
  let ?n = "length (pb_Proofs rp)" and ?m = "length (pb_RowRoots rp)"
  have "\<forall>i\<in>set [0..<?n]. i < length (replicate ?m ([] :: bytes)) \<and> i < length (replicate ?n (None :: Proof option))
          \<and> i < ?m \<and> i < ?n \<and> pb_Proofs rp ! i \<noteq> None"
    using assms by (auto simp: list_all_length)
  from FromProto_loop_ok [OF this] obtain rr' rps' where
    r: "FromProto_loop rp [0..<?n] (replicate ?m [], replicate ?n None) = Inr (rr', rps')"
      "length rr' = ?m" "length rps' = ?n"
      "\<forall>j<?m. rr' ! j = (if j < ?n then pb_RowRoots rp ! j else [])"
      "\<forall>j<?n. rps' ! j = Some (Proof_literal (the (pb_Proofs rp ! j)))"
    by auto
  have "rr' = take ?n (pb_RowRoots rp) @ replicate (?m - ?n) []"
    using r(2,4) assms(1) by (intro nth_equalityI) (auto simp: nth_append)
  moreover have "rps' = map (\<lambda>p. Some (Proof_literal (the p))) (pb_Proofs rp)"
    using r(3,5) by (intro nth_equalityI) auto
  ultimately show ?thesis using r(1) by simp
qed

lemma ToProto_loop_all:
  assumes "length (RowRoots rp) \<le> length (Proofs rp)"
  shows "ToProto_loop rp [0..<length (RowRoots rp)]
           (replicate (length (RowRoots rp)) [], replicate (length (Proofs rp)) None) =
         Inr (map Bytes (RowRoots rp),
              map (\<lambda>p. Some (Proof_ToProto p)) (take (length (RowRoots rp)) (Proofs rp))
                @ replicate (length (Proofs rp) - length (RowRoots rp)) None)"
proof -
  let ?n = "length (Proofs rp)" and ?m = "length (RowRoots rp)"
  have "\<forall>i\<in>set [0..<?m]. i < length (replicate ?m ([] :: bytes))
          \<and> i < length (replicate ?n (None :: pb_Proof option)) \<and> i < ?m \<and> i < ?n"
    using assms by auto
  from ToProto_loop_ok [OF this] obtain rr' rps' where
    r: "ToProto_loop rp [0..<?m] (replicate ?m [], replicate ?n None) = Inr (rr', rps')"
      "length rr' = ?m" "length rps' = ?n"
      "\<forall>j<?m. rr' ! j = Bytes (RowRoots rp ! j)"
      "\<forall>j<?n. rps' ! j = (if j < ?m then Some (Proof_ToProto (Proofs rp ! j)) else None)"
    by auto
  have "rr' = map Bytes (RowRoots rp)"
    using r(2,4) by (intro nth_equalityI) auto
  moreover have "rps' = map (\<lambda>p. Some (Proof_ToProto p)) (take ?m (Proofs rp)) @ replicate (?n - ?m) None"
    using r(3,5) assms by (intro nth_equalityI) (auto simp: nth_append)
  ultimately show ?thesis using r(1) by simp
qed

text \<open>
  What \<^verbatim>\<open>merkle.Proof.ToProto\<close> makes of the literal that \<^verbatim>\<open>ShareProofFromProto\<close> builds from a
  path is that path: each copies the same four fields.
\<close>

lemma Proof_ToProto_literal:
  "Proof_ToProto (Proof_literal p) = p"
  by (simp add: Proof_ToProto_def Proof_literal_def)

lemma FromProto_well_formed:
  assumes "pb_RowProof pb = Some rp"
    and "length (pb_Proofs rp) \<le> length (pb_RowRoots rp)"
    and "list_all (\<lambda>p. p \<noteq> None) (pb_Proofs rp)"
  shows "ShareProofFromProto pb =
        Inr (\<lparr>Data = pb_Data pb, ShareProofs = pb_ShareProofs pb, NamespaceID = NamespaceId pb,
              RowProof = \<lparr>RowRoots = take (length (pb_Proofs rp)) (pb_RowRoots rp)
                                       @ replicate (length (pb_RowRoots rp) - length (pb_Proofs rp)) [],
                           Proofs = map (\<lambda>p. Proof_literal (the p)) (pb_Proofs rp),
                           StartRow = pb_StartRow rp, EndRow = pb_EndRow rp\<rparr>\<rparr>,
             None)"
  using assms FromProto_loop_all [of rp] by (simp add: ShareProofFromProto_def comp_def)

subsection \<open>C7: the round trip through the wire message\<close>

text \<open>
  C7, as stated, fails: a message with its row proof present, two row roots and two paths, the
  second path a nil pointer, makes \<^verbatim>\<open>ShareProofFromProto\<close> panic at
  \<^verbatim>\<open>pb.RowProof.Proofs[i].Total\<close>; there is no proof to convert back.
\<close>

theorem round_trip_counterexample:
  "pb_RowProof pb_nil_path \<noteq> None
   \<and> length (pb_RowRoots (the (pb_RowProof pb_nil_path)))
       = length (pb_Proofs (the (pb_RowProof pb_nil_path)))
   \<and> ShareProofFromProto pb_nil_path = Inl NilDereference"
  by (simp add: ShareProofFromProto_def wire_defs index_def assign_def Proof_literal_def
        upt_rec [of 0] upt_rec [of 1] upt_rec [of 2] numeral_2_eq_2)

text \<open>
  C7, amended. For a wire message with its row proof present, as many row roots as paths and
  no nil path, \<^verbatim>\<open>ShareProofFromProto\<close> returns a proof and a nil error, and \<^verbatim>\<open>ToProto\<close> of that
  proof is the message again, field by field.
\<close>

theorem round_trip:
  assumes "pb_RowProof pb = Some rp"
    and "length (pb_RowRoots rp) = length (pb_Proofs rp)"
    and "list_all (\<lambda>p. p \<noteq> None) (pb_Proofs rp)"
  shows "\<exists>sp. ShareProofFromProto pb = Inr (sp, None) \<and> ToProto sp = Inr pb"
proof -
  let ?sp = "\<lparr>Data = pb_Data pb, ShareProofs = pb_ShareProofs pb, NamespaceID = NamespaceId pb,
              RowProof = \<lparr>RowRoots = pb_RowRoots rp,
                           Proofs = map (\<lambda>p. Proof_literal (the p)) (pb_Proofs rp),
                           StartRow = pb_StartRow rp, EndRow = pb_EndRow rp\<rparr>\<rparr>"
  have f: "ShareProofFromProto pb = Inr (?sp, None)"
    using FromProto_well_formed [OF assms(1) _ assms(3)] assms(2) by simp
  have m: "map (\<lambda>p. Some (Proof_ToProto (Proof_literal (the p)))) (pb_Proofs rp) = pb_Proofs rp"
    using assms(3) by (intro map_idI) (auto simp: list_all_iff Proof_ToProto_literal)
  have b: "map Bytes (pb_RowRoots rp) = pb_RowRoots rp"
    by (intro map_idI) (simp add: Bytes_def)
  have t: "ToProto ?sp = Inr pb"
    using assms(1,2) ToProto_loop_all [of "RowProof ?sp"] m b
    by (simp add: ToProto_def comp_def)
  from f t show ?thesis by blast
qed

theorem round_trip_witness:
  "ShareProofFromProto pb_two_rows = Inr (two_rows, None)
   \<and> ToProto two_rows = Inr pb_two_rows"
proof -
  have f: "ShareProofFromProto pb_two_rows = Inr (two_rows, None)"
    by (simp add: ShareProofFromProto_def wire_defs two_rows_def index_def assign_def
        Proof_literal_def upt_rec [of 0] upt_rec [of 1] upt_rec [of 2] numeral_2_eq_2)
  have h: "pb_RowProof pb_two_rows = Some (the (pb_RowProof pb_two_rows))"
    "length (pb_RowRoots (the (pb_RowProof pb_two_rows)))
       = length (pb_Proofs (the (pb_RowProof pb_two_rows)))"
    "list_all (\<lambda>p. p \<noteq> None) (pb_Proofs (the (pb_RowProof pb_two_rows)))"
    by (simp_all add: wire_defs)
  from round_trip [OF h] f show ?thesis by auto
qed

subsection \<open>C8: the result of RowProof.Validate is handed on\<close>

text \<open>
  C8, as stated, fails: the error of \<^verbatim>\<open>RowProof.Validate\<close> is returned as it is
  (\<^verbatim>\<open>return err\<close>), with no type or wrapper of its own that would tell it from the errors
  of the first three steps. Where \<^verbatim>\<open>RowProof.Validate\<close> fails with the message of the
  inconsistency error, \<^verbatim>\<open>Validate\<close> returns on a proof that passed the three steps the very
  error that it returns on a proof whose rows do not verify.
\<close>

theorem RowProof_error_not_distinct_counterexample:
  "count_consistent two_rows \<and> range_sane two_rows
   \<and> VerifyProof concat_verifier two_rows = Inr True
   \<and> rows_inconsistent (RowProof two_rows) [5] \<noteq> None
   \<and> Validate concat_verifier rows_inconsistent two_rows [5] = Inr (Some InconsistentProof)
   \<and> Validate concat_verifier rows_valid two_rows_reordered [5] = Inr (Some InconsistentProof)"
  by (simp add: Validate_def Validate_run_steps range_loop_sane [symmetric] InconsistentProof_def
      example_defs run_defs)

text \<open>
  C8, amended. When the count check, the range check and \<^verbatim>\<open>VerifyProof\<close> pass, \<^verbatim>\<open>Validate\<close> returns
  what \<^verbatim>\<open>RowProof.Validate(root)\<close> returns, unchanged: its error for an error, nil for nil; and
  that call is the last one made.
\<close>

theorem RowProof_result_handed_on:
  assumes "count_consistent sp" and "range_sane sp" and "VerifyProof v sp = Inr True"
  shows "Validate v rv sp root = Inr (rv (RowProof sp) root)
       \<and> Validate_calls v rv sp root = VerifyProof_calls v sp @ [RowProof_Validate (RowProof sp) root]"
proof -
  have "range_loop (ShareProofs sp) = Inr None"
    using assms(2) by (simp add: range_sane_def range_loop_sane)
  with assms range_sane_rows_present [OF assms(2)] show ?thesis
    by (simp add: Validate_def Validate_calls_def Validate_run_steps)
qed

theorem RowProof_result_handed_on_witness:
  "Validate concat_verifier rows_invalid two_rows [5] =
     Inr (Some (errors_New ''row proof failed to verify''))
   \<and> Validate concat_verifier rows_valid two_rows [5] = Inr None"
proof -
  have a: "count_consistent two_rows" "range_sane two_rows"
    "VerifyProof concat_verifier two_rows = Inr True"
    by (simp_all add: example_defs run_defs)
  show ?thesis
    using RowProof_result_handed_on [OF a, of rows_invalid "[5]"]
      RowProof_result_handed_on [OF a, of rows_valid "[5]"]
    by (simp add: rows_valid_def rows_invalid_def)
qed

subsection \<open>C9: the same contents give the same result, and nothing is written\<close>

text \<open>
  Two proofs have the same contents when their fields hold the same values; the capacity of
  \<^verbatim>\<open>Data\<close> and what its backing array holds beyond its length are not contents. A row that
  ends within the length of \<^verbatim>\<open>Data\<close> reads the same shares from both.
\<close>

lemma same_contents_rows:
  assumes "same_contents sp sp'"
  shows "cursor_at sp' i = cursor_at sp i" "row_lo sp' i = row_lo sp i" "row_hi sp' i = row_hi sp i"
    "len (Data sp') = len (Data sp)"
  using assms by (simp_all add: same_contents_def cursor_at_def row_lo_def row_hi_def len_def)

lemma row_leaves_within_len:
  assumes "0 \<le> row_lo sp i" "row_lo sp i \<le> row_hi sp i" "row_hi sp i \<le> int (len (Data sp))"
  shows "row_leaves sp i =
           take (nat (row_hi sp i - row_lo sp i)) (drop (nat (row_lo sp i)) (elems (Data sp)))"
  using assms by (simp add: row_leaves_def len_def)

lemma same_contents_row:
  assumes s: "same_contents sp sp'" and h: "row_hi sp i \<le> int (len (Data sp))"
  shows "row_readable sp' i = row_readable sp i" "row_panic sp' i = row_panic sp i"
    "row_readable sp i \<Longrightarrow> row_call sp' i = row_call sp i"
    "row_readable sp i \<Longrightarrow> row_verifies v sp' i = row_verifies v sp i"
proof -
  note r = same_contents_rows [OF s]
  have c: "len (Data sp) \<le> cap (Data sp)" "len (Data sp') \<le> cap (Data sp')"
    by (simp_all add: len_def cap_def)
  have b: "slice_in_bounds sp' i = slice_in_bounds sp i"
    using h c r(4) by (auto simp: slice_in_bounds_def r(2,3))
  from s b show "row_readable sp' i = row_readable sp i" "row_panic sp' i = row_panic sp i"
    by (simp_all add: row_readable_def row_panic_def same_contents_def)
  have l: "row_leaves sp' i = row_leaves sp i" if "row_readable sp i"
  proof -
    from that have "0 \<le> row_lo sp i" "row_lo sp i \<le> row_hi sp i"
      by (simp_all add: row_readable_def slice_in_bounds_def)
    with h r s show ?thesis
      by (simp add: row_leaves_within_len same_contents_def)
  qed
  from s l show "row_readable sp i \<Longrightarrow> row_call sp' i = row_call sp i"
    "row_readable sp i \<Longrightarrow> row_verifies v sp' i = row_verifies v sp i"
    by (simp_all add: row_call_def row_verifies_def same_contents_def)
qed

lemma VerifyProof_loop_same_contents:
  assumes s: "same_contents sp sp'" and w: "rows_within_len sp"
    and i: "i \<le> length (ShareProofs sp)"
  shows "VerifyProof_loop v sp' (cursor_at sp' i) i (drop i (ShareProofs sp')) =
         VerifyProof_loop v sp (cursor_at sp i) i (drop i (ShareProofs sp))"
  using i
proof (induction "length (ShareProofs sp) - i" arbitrary: i)
  case 0
  then show ?case using s by (simp add: same_contents_def)
next
  case (Suc n)
  then have i: "i < length (ShareProofs sp)" and i': "i < length (ShareProofs sp')"
    using s by (simp_all add: same_contents_def)
  have h: "row_hi sp i \<le> int (len (Data sp))"
    using w i by (simp add: rows_within_len_def list_all_iff)
  have ih: "VerifyProof_loop v sp' (cursor_at sp' (Suc i)) (Suc i) (drop (Suc i) (ShareProofs sp')) =
         VerifyProof_loop v sp (cursor_at sp (Suc i)) (Suc i) (drop (Suc i) (ShareProofs sp))"
    using Suc.hyps(1) [of "Suc i"] Suc.hyps(2) i by simp
  show ?case
    unfolding VerifyProof_loop_step [OF i] VerifyProof_loop_step [OF i'] ih
    using same_contents_row [OF s h] by auto
qed

lemma VerifyProof_run_same_contents:
  assumes "same_contents sp sp'" and "rows_within_len sp"
  shows "VerifyProof_run v sp' = VerifyProof_run v sp"
  using VerifyProof_loop_same_contents [OF assms, of 0 v]
  by (simp add: VerifyProof_run_def cursor_at_def)

lemma Validate_run_same_contents:
  assumes s: "same_contents sp sp'"
    and o: "(\<Sum>p\<leftarrow>ShareProofs sp. sint (share_count p)) < 2 ^ 31"
  shows "Validate_run v rv sp' root = Validate_run v rv sp root"
proof -
  have e: "rows_present sp' = rows_present sp" "count_consistent sp' = count_consistent sp"
    "ShareProofs sp' = ShareProofs sp" "RowProof sp' = RowProof sp"
    using s by (simp_all add: same_contents_def rows_present_def count_consistent_def len_def)
  show ?thesis
  proof (cases "count_consistent sp \<and> range_sane sp")
    case True
    then have "rows_within_len sp"
      using rows_in_bounds_without_overflow [OF _ _ o]
      by (simp add: rows_within_len_def list_all_iff)
    from VerifyProof_run_same_contents [OF s this, of v]
    have vp: "VerifyProof v sp' = VerifyProof v sp" "VerifyProof_calls v sp' = VerifyProof_calls v sp"
      by (simp_all add: VerifyProof_def VerifyProof_calls_def)
    show ?thesis
      unfolding Validate_run_steps e vp ..
  next
    case False
    then have "\<not> count_consistent sp \<or> range_loop (ShareProofs sp) \<noteq> Inr None"
      by (simp add: range_sane_def range_loop_sane)
    then show ?thesis
      by (auto simp: Validate_run_steps e split: sum.splits option.splits)
  qed
qed

text \<open>
  Over the explicit memory: with collaborators that only read, the loop of \<^verbatim>\<open>VerifyProof\<close>
  returns the memory it was given, and its result is the one of the loop above, run on the
  proof in that memory with the verdicts that the collaborator gives in that memory.
\<close>

lemma VerifyProof_st_loop_pure:
  assumes "read_only_verifier v" and "i + n = length (ShareProofs (mem_proof m))"
  shows "VerifyProof_st_loop v cursor i n m =
     (snd (VerifyProof_loop (\<lambda>s e ns nid ls r. fst (v s e ns nid ls r m)) (mem_proof m) cursor i
             (drop i (ShareProofs (mem_proof m)))), m)"
  using assms(2)
proof (induction n arbitrary: i cursor)
  case 0
  then show ?case by simp
next
  case (Suc n)
  then have i: "i < length (ShareProofs (mem_proof m))" by simp
  have d: "drop i (ShareProofs (mem_proof m)) =
             ShareProofs (mem_proof m) ! i # drop (Suc i) (ShareProofs (mem_proof m))"
    using i by (simp add: Cons_nth_drop_Suc)
  have i': "index (ShareProofs (mem_proof m)) i = Inr (ShareProofs (mem_proof m) ! i)"
    using i by (simp add: index_def)
  have ro: "v s e ns nid ls r m = (fst (v s e ns nid ls r m), m)" for s e ns nid ls r
    using assms(1) by (metis read_only_verifier_def prod.collapse)
  have ih: "VerifyProof_st_loop v c (Suc i) n m =
     (snd (VerifyProof_loop (\<lambda>s e ns nid ls r. fst (v s e ns nid ls r m)) (mem_proof m) c (Suc i)
             (drop (Suc i) (ShareProofs (mem_proof m)))), m)" for c
    using Suc.IH [of "Suc i" c] Suc.prems by simp
  show ?case
  proof (cases "ShareProofs (mem_proof m) ! i")
    case None
    then show ?thesis unfolding d by (simp add: i')
  next
    case (Some p)
    show ?thesis
    proof (cases "slice_expr (Data (mem_proof m)) (sint cursor) (sint (End p - Start p + cursor))")
      case (Inl e)
      then show ?thesis unfolding d by (simp add: i' Some)
    next
      case leaves: (Inr leaves)
      show ?thesis
      proof (cases "index (RowRoots (RowProof (mem_proof m))) i")
        case (Inl e)
        with leaves show ?thesis unfolding d by (simp add: i' Some)
      next
        case (Inr rowRoot)
        obtain b where b: "v (sint (Start p)) (sint (End p)) (Nodes p) (NamespaceID (mem_proof m))
                              (elems leaves) rowRoot m = (b, m)"
          using ro by blast
        show ?thesis
          unfolding d
          by (simp add: i' Some leaves Inr b ih Let_def split: prod.splits)
      qed
    qed
  qed
qed

lemma VerifyProof_st_pure:
  assumes "read_only_verifier v"
  shows "VerifyProof_st v m =
           (VerifyProof (\<lambda>s e ns nid ls r. fst (v s e ns nid ls r m)) (mem_proof m), m)"
  using VerifyProof_st_loop_pure [OF assms, of 0 "length (ShareProofs (mem_proof m))" m 0]
  by (simp add: VerifyProof_st_def VerifyProof_def VerifyProof_run_def)

lemma Validate_st_pure:
  assumes "read_only_verifier v" and "read_only_row_validator rv"
  shows "Validate_st v rv m =
           (Validate (\<lambda>s e ns nid ls r. fst (v s e ns nid ls r m)) (\<lambda>rp r. fst (rv rp r m))
              (mem_proof m) (mem_root m), m)"
proof -
  let ?v = "\<lambda>s e ns nid ls r. fst (v s e ns nid ls r m)"
  obtain o' where o': "rv (RowProof (mem_proof m)) (mem_root m) m = (o', m)"
    using assms(2) by (metis read_only_row_validator_def prod.collapse)
  have p: "VerifyProof_st v m = (VerifyProof ?v (mem_proof m), m)"
    by (rule VerifyProof_st_pure [OF assms(1)])
  show ?thesis
    unfolding Validate_st_def Validate_def Validate_run_def p
    by (cases "VerifyProof_run ?v (mem_proof m)")
       (auto simp: VerifyProof_def o' split: option.splits sum.splits)
qed

text \<open>A collaborator that writes is seen in the memory that \<^verbatim>\<open>VerifyProof\<close> leaves behind.\<close>

lemma VerifyProof_st_clearing_verifier:
  "VerifyProof_st clearing_verifier_st two_rows_memory = (Inr True, two_rows_memory\<lparr>mem_root := []\<rparr>)"
  by (simp add: VerifyProof_st_def clearing_verifier_st_def two_rows_memory_def two_rows_def
      numeral_2_eq_2 index_def slice_expr_def cap_def)

text \<open>
  C9, as stated, fails: two proofs of identical contents (three shares, one row that declares
  four) give different results. Over a \<^verbatim>\<open>Data\<close> of capacity 3 the slice \<^verbatim>\<open>sp.Data[0:4]\<close> panics;
  over a \<^verbatim>\<open>Data\<close> of capacity 4, as three appends build it, the slice is taken, the verifier is
  called and \<^verbatim>\<open>VerifyProof\<close> returns its verdict. \<^verbatim>\<open>Validate\<close> differs in the same way on the
  four rows whose sum wraps: a panic at \<^verbatim>\<open>sp.Data[0:2]\<close> with capacity 1, and the error of an
  inconsistent proof with capacity 2.
\<close>

theorem same_contents_counterexample:
  "same_contents three_shares_cap3 three_shares_cap4
   \<and> VerifyProof concat_verifier three_shares_cap3 = Inl SliceBoundsOutOfRange
   \<and> VerifyProof concat_verifier three_shares_cap4 = Inr True
   \<and> same_contents wrapping_rows_cap1 wrapping_rows_cap2
   \<and> Validate concat_verifier rows_valid wrapping_rows_cap1 [5] = Inl SliceBoundsOutOfRange
   \<and> Validate concat_verifier rows_valid wrapping_rows_cap2 [5] = Inr (Some InconsistentProof)"
  by (simp add: same_contents_def Validate_def Validate_run_def example_defs run_defs)

text \<open>
  C9, amended. \<^verbatim>\<open>VerifyProof\<close> returns the same result, after the same calls, on two proofs of
  the same contents whose rows all end within the length of \<^verbatim>\<open>Data\<close>; \<^verbatim>\<open>Validate\<close> does so on
  two proofs of the same contents whose declared share counts sum to less than \<open>2^31\<close>. When
  the row-inclusion verifier and \<^verbatim>\<open>RowProof.Validate\<close> only read, \<^verbatim>\<open>Validate\<close> and \<^verbatim>\<open>VerifyProof\<close>
  leave the proof and the root as they found them, their result is the one computed from the
  proof and the root alone, and a second call returns what the first returned.
\<close>

theorem Validate_deterministic_reads_only:
  "(same_contents sp sp' \<and> rows_within_len sp \<longrightarrow> VerifyProof_run v sp' = VerifyProof_run v sp)
   \<and> (same_contents sp sp' \<and> (\<Sum>p\<leftarrow>ShareProofs sp. sint (share_count p)) < 2 ^ 31 \<longrightarrow>
        Validate_run v rv sp' root = Validate_run v rv sp root)
   \<and> (read_only_verifier w \<and> read_only_row_validator rw \<longrightarrow>
        Validate_st w rw m =
          (Validate (\<lambda>s e ns nid ls r. fst (w s e ns nid ls r m)) (\<lambda>rp r. fst (rw rp r m))
             (mem_proof m) (mem_root m), m)
        \<and> VerifyProof_st w m =
          (VerifyProof (\<lambda>s e ns nid ls r. fst (w s e ns nid ls r m)) (mem_proof m), m)
        \<and> Validate_st w rw (snd (Validate_st w rw m)) = Validate_st w rw m
        \<and> VerifyProof_st w (snd (VerifyProof_st w m)) = VerifyProof_st w m)"
  using VerifyProof_run_same_contents [of sp sp' v] Validate_run_same_contents [of sp sp' v rv root]
    Validate_st_pure [of w rw m] VerifyProof_st_pure [of w m]
  by simp

theorem Validate_deterministic_reads_only_witness:
  "VerifyProof_run concat_verifier two_rows_spare = VerifyProof_run concat_verifier two_rows
   \<and> Validate_run concat_verifier rows_valid two_rows_spare [5]
       = Validate_run concat_verifier rows_valid two_rows [5]
   \<and> Validate_st concat_verifier_st rows_valid_st two_rows_memory = (Inr None, two_rows_memory)
   \<and> VerifyProof_st concat_verifier_st two_rows_memory = (Inr True, two_rows_memory)"
proof -
  have s: "same_contents two_rows two_rows_spare"
    by (simp add: same_contents_def example_defs)
  have l: "rows_within_len two_rows"
    by (simp add: rows_within_len_def numeral_2_eq_2 upt_rec [of 0] upt_rec [of 1] example_defs row_defs)
  have o: "(\<Sum>p\<leftarrow>ShareProofs two_rows. sint (share_count p)) < 2 ^ 31"
    by (simp add: example_defs share_count_simps)
  have a: "read_only_verifier concat_verifier_st"
    by (simp add: read_only_verifier_def concat_verifier_st_def)
  have b: "read_only_row_validator rows_valid_st"
    by (simp add: read_only_row_validator_def rows_valid_st_def)
  have c: "Validate (\<lambda>s e ns nid ls r. fst (concat_verifier_st s e ns nid ls r two_rows_memory))
             (\<lambda>rp r. fst (rows_valid_st rp r two_rows_memory)) two_rows [5] = Inr None"
    by (simp add: Validate_def Validate_run_def VerifyProof_run_def slice_expr_def index_def
        len_def cap_def concat_verifier_st_def rows_valid_st_def two_rows_def)
  have d: "VerifyProof (\<lambda>s e ns nid ls r. fst (concat_verifier_st s e ns nid ls r two_rows_memory))
             two_rows = Inr True"
    by (simp add: VerifyProof_def VerifyProof_run_def slice_expr_def index_def cap_def
        concat_verifier_st_def two_rows_def)
  show ?thesis
    using s l o a b c d
      Validate_deterministic_reads_only [of two_rows two_rows_spare concat_verifier rows_valid "[5]"
        concat_verifier_st rows_valid_st two_rows_memory]
    by (simp add: two_rows_memory_def)
qed

subsection \<open>C10: ShareProofFromProto checks nothing\<close>

text \<open>
  C10, as stated, fails: with its row proof present and more paths than row roots, a message
  makes \<^verbatim>\<open>ShareProofFromProto\<close> panic at \<^verbatim>\<open>rowRoots[i] = pb.RowProof.RowRoots[i]\<close>; it returns
  no proof.
\<close>

theorem FromProto_panics_counterexample:
  "pb_RowProof pb_more_paths \<noteq> None
   \<and> ShareProofFromProto pb_more_paths = Inl IndexOutOfRange"
  by (simp add: ShareProofFromProto_def wire_defs index_def assign_def Proof_literal_def
        upt_rec [of 0] upt_rec [of 1] upt_rec [of 2] numeral_2_eq_2)

text \<open>
  C10, amended. \<^verbatim>\<open>ShareProofFromProto\<close> never returns an error that is not nil. For a message
  with its row proof present, at most as many paths as row roots and no nil path, it returns,
  with a nil error and without checking counts, ranges or paths, the proof whose fields are
  those of the message; the row roots are copied for the indices of the paths only, and are
  empty beyond. With more paths than row roots, or without row proof, it panics.
\<close>

theorem FromProto_unchecked:
  "(\<forall>sp err. ShareProofFromProto pb = Inr (sp, err) \<longrightarrow> err = None)
   \<and> (pb_RowProof pb = Some rp \<and> length (pb_Proofs rp) \<le> length (pb_RowRoots rp)
        \<and> list_all (\<lambda>p. p \<noteq> None) (pb_Proofs rp) \<longrightarrow>
      ShareProofFromProto pb =
        Inr (\<lparr>Data = pb_Data pb, ShareProofs = pb_ShareProofs pb, NamespaceID = NamespaceId pb,
              RowProof = \<lparr>RowRoots = take (length (pb_Proofs rp)) (pb_RowRoots rp)
                                       @ replicate (length (pb_RowRoots rp) - length (pb_Proofs rp)) [],
                           Proofs = map (\<lambda>p. Proof_literal (the p)) (pb_Proofs rp),
                           StartRow = pb_StartRow rp, EndRow = pb_EndRow rp\<rparr>\<rparr>,
             None))
   \<and> (pb_RowProof pb = Some rp \<and> length (pb_RowRoots rp) < length (pb_Proofs rp) \<longrightarrow>
        (\<exists>p. ShareProofFromProto pb = Inl p))
   \<and> (pb_RowProof pb = None \<longrightarrow> ShareProofFromProto pb = Inl NilDereference)"
proof -
  have a: "err = None" if "ShareProofFromProto pb = Inr (sp, err)" for sp err
    using that by (auto simp: ShareProofFromProto_def Let_def split: option.splits sum.splits)
  have c: "\<exists>p. ShareProofFromProto pb = Inl p"
    if "pb_RowProof pb = Some rp" "length (pb_RowRoots rp) < length (pb_Proofs rp)"
  proof -
    have "\<exists>i\<in>set [0..<length (pb_Proofs rp)]. length (replicate (length (pb_RowRoots rp)) ([] :: bytes)) \<le> i"
      using that(2) by (intro bexI [of _ "length (pb_RowRoots rp)"]) auto
    from FromProto_loop_panics [OF this, of rp "replicate (length (pb_Proofs rp)) None"]
    obtain p where "FromProto_loop rp [0..<length (pb_Proofs rp)]
       (replicate (length (pb_RowRoots rp)) [], replicate (length (pb_Proofs rp)) None) = Inl p"
      by blast
    with that(1) show ?thesis
      by (simp add: ShareProofFromProto_def)
  qed
  have d: "ShareProofFromProto pb = Inl NilDereference" if "pb_RowProof pb = None"
    using that by (simp add: ShareProofFromProto_def)
  from a FromProto_well_formed [of pb rp] c d show ?thesis by blast
qed

theorem FromProto_unchecked_witness:
  "ShareProofFromProto pb_fewer_paths = Inr (decoded_fewer_paths, None)
   \<and> Validate concat_verifier rows_valid decoded_fewer_paths [5] = Inr (Some CountMismatch)
   \<and> (\<exists>p. ShareProofFromProto pb_more_paths = Inl p)
   \<and> ShareProofFromProto pb_no_row_proof = Inl NilDereference"
proof -
  have a: "pb_RowProof pb_fewer_paths = Some (the (pb_RowProof pb_fewer_paths))
      \<and> length (pb_Proofs (the (pb_RowProof pb_fewer_paths)))
          \<le> length (pb_RowRoots (the (pb_RowProof pb_fewer_paths)))
      \<and> list_all (\<lambda>p. p \<noteq> None) (pb_Proofs (the (pb_RowProof pb_fewer_paths)))"
    by (simp add: wire_defs)
  have b: "pb_RowProof pb_more_paths = Some (the (pb_RowProof pb_more_paths))
      \<and> length (pb_RowRoots (the (pb_RowProof pb_more_paths)))
          < length (pb_Proofs (the (pb_RowProof pb_more_paths)))"
    by (simp add: wire_defs)
  have c: "pb_RowProof pb_no_row_proof = None"
    by (simp add: wire_defs)
  have d: "Validate concat_verifier rows_valid decoded_fewer_paths [5] = Inr (Some CountMismatch)"
    by (simp add: Validate_def Validate_run_def decoded_fewer_paths_def numberOfSharesInProofs.simps
        len_def)
  show ?thesis
    using a b c d
      FromProto_unchecked [of pb_fewer_paths "the (pb_RowProof pb_fewer_paths)"]
      FromProto_unchecked [of pb_more_paths "the (pb_RowProof pb_more_paths)"]
      FromProto_unchecked [of pb_no_row_proof undefined]
    by (simp add: wire_defs decoded_fewer_paths_def Proof_literal_def)
qed

end
